theory Spec2Isabelle
  imports Main
begin

section \<open>Strings\<close>

text \<open>
  A Go string is a sequence of bytes; it is modelled as a \<open>char list\<close>. Every character the
  three patterns of the program single out (dollar, braces, colon, minus, backslash, line feed)
  is ASCII and therefore never part of a multi-byte UTF-8 sequence, so matching byte by byte
  agrees with Go's matching rune by rune.
\<close>

definition backslash :: char where
  "backslash = CHR 0x5C"

definition linefeed :: char where
  "linefeed = CHR 0x0A"

text \<open>\<open>strings.HasPrefix(s, prefix)\<close>.\<close>

definition HasPrefix :: "string \<Rightarrow> string \<Rightarrow> bool" where
  "HasPrefix s prefix = (take (length prefix) s = prefix)"

text \<open>\<open>strings.Contains(s, substr)\<close>.\<close>

fun Contains :: "string \<Rightarrow> string \<Rightarrow> bool" where
  "Contains [] substr = (substr = [])"
| "Contains (c # cs) substr = (if HasPrefix (c # cs) substr then True else Contains cs substr)"

text \<open>\<open>strings.Join(elems, sep)\<close>.\<close>

fun Join :: "string list \<Rightarrow> string \<Rightarrow> string" where
  "Join [] sep = []"
| "Join [x] sep = x"
| "Join (x # y # ys) sep = x @ sep @ Join (y # ys) sep"

section \<open>Regular expressions\<close>

text \<open>
  Go's \<open>regexp\<close> package returns the match a backtracking matcher finds first: alternatives
  are tried from left to right, \<open>?\<close>, \<open>*\<close> and \<open>+\<close> first try to consume more. The three patterns
  of the program are written below piece by piece in that order, each piece handing the text
  it has matched and the text that is left to the piece that follows it.
\<close>

text \<open>A literal at the head of the text: the rest of the text when it is there.\<close>

definition literal :: "string \<Rightarrow> string \<Rightarrow> string option" where
  "literal l s = (if HasPrefix s l then Some (drop (length l) s) else None)"

text \<open>
  A greedy repetition \<open>[...]*\<close> of a character class \<open>cls\<close>, followed by the rest \<open>k\<close> of the
  pattern: consume one more character when the class admits it and the rest of the pattern
  then succeeds, else stop here. \<open>acc\<close> is the text the repetition has consumed so far.
\<close>

fun star :: "(char \<Rightarrow> bool) \<Rightarrow> (string \<Rightarrow> string \<Rightarrow> 'a option) \<Rightarrow> string \<Rightarrow> string \<Rightarrow> 'a option" where
  "star cls k acc [] = k acc []"
| "star cls k acc (c # cs) =
     (if cls c then
        (case star cls k (acc @ [c]) cs of
           Some r \<Rightarrow> Some r
         | None \<Rightarrow> k acc (c # cs))
      else k acc (c # cs))"

text \<open>An alternation: the first alternative that succeeds.\<close>

fun alternation :: "('a \<Rightarrow> 'b option) \<Rightarrow> 'a list \<Rightarrow> 'b option" where
  "alternation k [] = None"
| "alternation k (a # as) = (case k a of Some r \<Rightarrow> Some r | None \<Rightarrow> alternation k as)"

subsection \<open>\<open>singleRegex\<close>\<close>

text \<open>
  \<^verbatim>\<open>^\$\{[^\}]+\}$\<close>: the whole text is one placeholder. A negated class matches a line
  feed too, and \<open>$\<close> is the end of the text (no flag is set).
\<close>

definition singleRegex :: "string \<Rightarrow> bool" where
  "singleRegex s =
     (case literal ''${'' s of
        None \<Rightarrow> False
      | Some body \<Rightarrow>
          (case star (\<lambda>c. c \<noteq> CHR ''}'')
                  (\<lambda>m rest. if m \<noteq> [] \<and> rest = ''}'' then Some m else None) [] body of
             None \<Rightarrow> False
           | Some m \<Rightarrow> True))"

subsection \<open>\<open>detectRegex\<close>\<close>

text \<open>
  \<^verbatim>\<open>\\?\$\{[^\}]+\}\<close> tried at the head of a text: the text matched and the text after it.
\<close>

definition placeholder_at :: "string \<Rightarrow> (string \<times> string) option" where
  "placeholder_at s =
     (case literal ''${'' s of
        None \<Rightarrow> None
      | Some body \<Rightarrow>
          star (\<lambda>c. c \<noteq> CHR ''}'')
            (\<lambda>m rest.
               (case rest of
                  [] \<Rightarrow> None
                | c # rest' \<Rightarrow>
                    if m \<noteq> [] \<and> c = CHR ''}'' then Some (''${'' @ m @ ''}'', rest') else None))
            [] body)"

definition detectRegex :: "string \<Rightarrow> (string \<times> string) option" where
  "detectRegex s =
     (case s of
        [] \<Rightarrow> None
      | c # cs \<Rightarrow>
          if c = backslash then
            (case placeholder_at cs of
               Some (m, rest) \<Rightarrow> Some (c # m, rest)
             | None \<Rightarrow> placeholder_at s)
          else placeholder_at s)"

lemma star_length:
  assumes "\<And>m rest x r. k m rest = Some (x, r) \<Longrightarrow> length r < length rest"
  shows "star cls k acc s = Some (x, r) \<Longrightarrow> length r < length s"
proof (induction s arbitrary: acc)
  case Nil
  then show ?case using assms by fastforce
next
  case (Cons c cs)
  show ?case
  proof (cases "cls c")
    case True
    show ?thesis
    proof (cases "star cls k (acc @ [c]) cs")
      case None
      with True Cons.prems have "k acc (c # cs) = Some (x, r)" by simp
      then show ?thesis using assms by blast
    next
      case (Some a)
      with True Cons.prems have "star cls k (acc @ [c]) cs = Some (x, r)" by simp
      then have "length r < length cs" by (rule Cons.IH)
      then show ?thesis by simp
    qed
  next
    case False
    with Cons.prems have "k acc (c # cs) = Some (x, r)" by simp
    then show ?thesis using assms by blast
  qed
qed

lemma placeholder_at_length:
  "placeholder_at s = Some (m, rest) \<Longrightarrow> length rest < length s"
proof -
  assume a: "placeholder_at s = Some (m, rest)"
  then obtain body where b: "literal ''${'' s = Some body"
    by (auto simp: placeholder_at_def split: option.splits)
  then have lb: "length body \<le> length s"
    by (auto simp: literal_def split: if_splits)
  from a b have "star (\<lambda>c. c \<noteq> CHR ''}'')
            (\<lambda>m rest.
               (case rest of
                  [] \<Rightarrow> None
                | c # rest' \<Rightarrow>
                    if m \<noteq> [] \<and> c = CHR ''}'' then Some (''${'' @ m @ ''}'', rest') else None))
            [] body = Some (m, rest)"
    by (simp add: placeholder_at_def)
  then have "length rest < length body"
    by (rule star_length[rotated]) (auto split: list.splits if_splits)
  with lb show ?thesis by simp
qed

lemma detectRegex_length:
  "detectRegex s = Some (m, rest) \<Longrightarrow> length rest < length s"
  by (auto simp: detectRegex_def split: list.splits if_splits option.splits
      dest!: placeholder_at_length)

text \<open>
  \<open>detectRegex.ReplaceAllStringFunc(src, repl)\<close>: the text is scanned from the left; where the
  pattern matches, the match is replaced by what \<open>repl\<close> returns for it and the scan goes on
  after the match, elsewhere the character is copied. The callback of the program appends to
  a captured slice and calls the lookup function, so it is a function that takes and returns
  the state \<open>'a\<close> it works on.
\<close>

function ReplaceAllStringFunc :: "string \<Rightarrow> (string \<Rightarrow> 'a \<Rightarrow> string \<times> 'a) \<Rightarrow> 'a \<Rightarrow> string \<times> 'a" where
  "ReplaceAllStringFunc [] repl a = ([], a)"
| "ReplaceAllStringFunc (c # cs) repl a =
     (case detectRegex (c # cs) of
        Some (m, rest) \<Rightarrow>
          (case repl m a of
             (r, a') \<Rightarrow>
               (case ReplaceAllStringFunc rest repl a' of
                  (out, a'') \<Rightarrow> (r @ out, a'')))
      | None \<Rightarrow>
          (case ReplaceAllStringFunc cs repl a of
             (out, a') \<Rightarrow> (c # out, a')))"
  by pat_completeness auto
termination
  by (relation "measure (\<lambda>(s, repl, a). length s)") (auto dest: detectRegex_length)

subsection \<open>The pattern of \<open>expandValue\<close>\<close>

text \<open>
  \<^verbatim>\<open>^\$\{(?P<name>[^:]+)(?P<hasFormat>:(?P<format>number|boolean|string))?(?P<hasFallback>:-(?P<fallback>.*))?\}$\<close>.
  \<open>FindStringSubmatch\<close> returns the text of every group, the empty string for a group that
  took no part in the match.
\<close>

record submatch =
  name :: string
  hasFormat :: string
  format :: string
  hasFallback :: string
  fallback :: string

text \<open>\<^verbatim>\<open>\}$\<close>: a closing brace, then the end of the text.\<close>

definition closing :: "submatch \<Rightarrow> string \<Rightarrow> submatch option" where
  "closing p rest = (if rest = ''}'' then Some p else None)"

text \<open>
  \<^verbatim>\<open>(?P<hasFallback>:-(?P<fallback>.*))?\}$\<close>: the group is tried first, then the pattern
  without it. The dot matches every character but a line feed.
\<close>

definition match_hasFallback :: "submatch \<Rightarrow> string \<Rightarrow> submatch option" where
  "match_hasFallback p rest =
     (case (case literal '':-'' rest of
              None \<Rightarrow> None
            | Some t \<Rightarrow>
                star (\<lambda>c. c \<noteq> linefeed)
                  (\<lambda>fb r. closing (p\<lparr>hasFallback := '':-'' @ fb, fallback := fb\<rparr>) r) [] t) of
        Some q \<Rightarrow> Some q
      | None \<Rightarrow> closing p rest)"

text \<open>
  \<^verbatim>\<open>(?P<hasFormat>:(?P<format>number|boolean|string))?\<close>, then the rest of the pattern: the
  group is tried first, with its alternatives in their order, then the pattern without it.
\<close>

definition match_hasFormat :: "submatch \<Rightarrow> string \<Rightarrow> submatch option" where
  "match_hasFormat p rest =
     (case alternation
             (\<lambda>alt. case literal (CHR '':'' # alt) rest of
                      None \<Rightarrow> None
                    | Some t \<Rightarrow> match_hasFallback (p\<lparr>hasFormat := CHR '':'' # alt, format := alt\<rparr>) t)
             [''number'', ''boolean'', ''string''] of
        Some q \<Rightarrow> Some q
      | None \<Rightarrow> match_hasFallback p rest)"

definition expandValueRegex :: "string \<Rightarrow> submatch option" where
  "expandValueRegex str =
     (case literal ''${'' str of
        None \<Rightarrow> None
      | Some body \<Rightarrow>
          star (\<lambda>c. c \<noteq> CHR '':'')
            (\<lambda>n rest.
               if n = [] then None
               else match_hasFormat
                      \<lparr>name = n, hasFormat = [], format = [], hasFallback = [], fallback = []\<rparr> rest)
            [] body)"

text \<open>
  The format tag of a placeholder, as the specification words it: the text after the first
  colon and before any \<open>:-\<close>. \<open>format_tag\<close> takes the text that follows the first colon.
\<close>

fun format_tag :: "string \<Rightarrow> string" where
  "format_tag [] = []"
| "format_tag (c # cs) = (if HasPrefix (c # cs) '':-'' then [] else c # format_tag cs)"

section \<open>Library functions the program calls\<close>

subsection \<open>\<open>strconv.Atoi\<close> and the decimal form of an \<open>int\<close>\<close>

definition is_digit :: "char \<Rightarrow> bool" where
  "is_digit c = (48 \<le> (of_char c :: nat) \<and> (of_char c :: nat) \<le> 57)"

definition digit_val :: "char \<Rightarrow> nat" where
  "digit_val c = of_char c - 48"

fun digits_val :: "int \<Rightarrow> string \<Rightarrow> int" where
  "digits_val n [] = n"
| "digits_val n (c # cs) = digits_val (n * 10 + int (digit_val c)) cs"

text \<open>
  \<open>strconv.Atoi\<close> where \<open>int\<close> has 64 bits: an optional sign, then one or more decimal digits
  and nothing else, and a value that fits the type; \<open>None\<close> where it returns an error.
\<close>

definition Atoi :: "string \<Rightarrow> int option" where
  "Atoi s =
     (case s of
        [] \<Rightarrow> None
      | c # cs \<Rightarrow>
          (let neg = (c = CHR ''-'');
               ds = (if c = CHR ''-'' \<or> c = CHR ''+'' then cs else s);
               v = (if neg then - digits_val 0 ds else digits_val 0 ds)
           in if ds \<noteq> [] \<and> list_all is_digit ds \<and> - (2 ^ 63) \<le> v \<and> v < 2 ^ 63
              then Some v else None))"

definition digit_char :: "nat \<Rightarrow> char" where
  "digit_char n = char_of (48 + n)"

fun digits :: "nat \<Rightarrow> string" where
  "digits n = (if n < 10 then [digit_char n] else digits (n div 10) @ [digit_char (n mod 10)])"

text \<open>The text that the verb \<open>%v\<close> gives for an \<open>int\<close>.\<close>

definition Itoa :: "int \<Rightarrow> string" where
  "Itoa i = (if i < 0 then CHR ''-'' # digits (nat (- i)) else digits (nat i))"

subsection \<open>Floating-point numbers\<close>

text \<open>
  The values of \<open>float64\<close> are a type parameter \<open>'f\<close>, and the two library functions on them
  that the program calls are parameters of the model: \<open>strconv.ParseFloat(s, 64)\<close>, \<open>None\<close>
  where it returns an error, and the text that the verb \<open>%v\<close> gives for a \<open>float64\<close>.
\<close>

record 'f float64 =
  ParseFloat :: "string \<Rightarrow> 'f option"
  FormatFloat :: "'f \<Rightarrow> string"

subsection \<open>\<open>fmt.Errorf\<close> called with a format and no operand\<close>

text \<open>
  \<open>Expand\<close> hands its joined message to \<open>fmt.Errorf\<close> as the format. The functions below follow
  the library's \<open>doPrintf\<close> where the list of operands is empty: text is copied up to a percent
  sign; after it come flags, an argument index in brackets, a width, a precision and the
  verb, and since no operand can be found the directive is replaced by a note on what is
  wrong with it.
\<close>

definition is_flag :: "char \<Rightarrow> bool" where
  "is_flag c = (c \<in> set ''#0+- '')"

definition tooLarge :: "nat \<Rightarrow> bool" where
  "tooLarge x = (1000000 < x)"

text \<open>
  \<open>parsenum\<close> reads decimal digits: the number, whether there was one, and the text after it
  (no text at all once the number is too large).
\<close>

fun parsenum_loop :: "nat \<Rightarrow> bool \<Rightarrow> string \<Rightarrow> nat \<times> bool \<times> string" where
  "parsenum_loop num isnum [] = (num, isnum, [])"
| "parsenum_loop num isnum (c # cs) =
     (if is_digit c then
        (if tooLarge num then (0, False, [])
         else parsenum_loop (num * 10 + digit_val c) True cs)
      else (num, isnum, c # cs))"

definition parsenum :: "string \<Rightarrow> nat \<times> bool \<times> string" where
  "parsenum s = parsenum_loop 0 False s"

text \<open>
  \<open>parseArgNumber\<close>, on a text that starts with an opening bracket: the number of bytes to
  skip, and whether a number stands between the brackets.
\<close>

definition parseArgNumber :: "string \<Rightarrow> nat \<times> bool" where
  "parseArgNumber fmt =
     (if length fmt < 3 then (1, False)
      else
        (let inner = takeWhile (\<lambda>c. c \<noteq> CHR '']'') (tl fmt) in
         if length inner = length (tl fmt) then (1, False)
         else
           (case parsenum inner of
              (num, isnum, rest) \<Rightarrow>
                if isnum \<and> rest = [] then (length inner + 2, True)
                else (length inner + 2, False))))"

text \<open>
  \<open>argNumber\<close> with no operand: the text after the index, whether an index was found, and
  \<open>goodArgNum\<close>. No index is in range, so a bracket always clears \<open>goodArgNum\<close>.
\<close>

definition argNumber :: "string \<Rightarrow> bool \<Rightarrow> string \<times> bool \<times> bool" where
  "argNumber fmt good =
     (case fmt of
        [] \<Rightarrow> (fmt, False, good)
      | c # cs \<Rightarrow>
          if c = CHR ''['' then
            (case parseArgNumber fmt of (wid, ok) \<Rightarrow> (drop wid fmt, ok, False))
          else (fmt, False, good))"

text \<open>The width: what is written, the text after it, \<open>afterIndex\<close> and \<open>goodArgNum\<close>.\<close>

definition width_num :: "string \<Rightarrow> bool \<Rightarrow> bool \<Rightarrow> string \<times> string \<times> bool \<times> bool" where
  "width_num fmt afterIndex good =
     (case parsenum fmt of
        (num, widPresent, rest) \<Rightarrow>
          ([], rest, afterIndex, if afterIndex \<and> widPresent then False else good))"

definition width :: "string \<Rightarrow> bool \<Rightarrow> bool \<Rightarrow> string \<times> string \<times> bool \<times> bool" where
  "width fmt afterIndex good =
     (case fmt of
        [] \<Rightarrow> width_num fmt afterIndex good
      | c # cs \<Rightarrow>
          if c = CHR ''*'' then (''%!(BADWIDTH)'', cs, False, good)
          else width_num fmt afterIndex good)"

text \<open>The precision, likewise.\<close>

definition precision_num :: "string \<Rightarrow> bool \<Rightarrow> bool \<Rightarrow> string \<times> string \<times> bool \<times> bool" where
  "precision_num fmt afterIndex good =
     (case parsenum fmt of (num, precPresent, rest) \<Rightarrow> ([], rest, afterIndex, good))"

definition precision :: "string \<Rightarrow> bool \<Rightarrow> bool \<Rightarrow> string \<times> string \<times> bool \<times> bool" where
  "precision fmt afterIndex good =
     (case fmt of
        [] \<Rightarrow> ([], fmt, afterIndex, good)
      | c # cs \<Rightarrow>
          if c = CHR ''.'' then
            (case argNumber cs (if afterIndex then False else good) of
               (fmt2, afterIndex2, good2) \<Rightarrow>
                 (case fmt2 of
                    [] \<Rightarrow> precision_num fmt2 afterIndex2 good2
                  | d # ds \<Rightarrow>
                      if d = CHR ''*'' then (''%!(BADPREC)'', ds, False, good2)
                      else precision_num fmt2 afterIndex2 good2))
          else ([], fmt, afterIndex, good))"

text \<open>
  The verb is one rune. \<open>utf8.DecodeRuneInString\<close> gives the rune at the head of a text and
  its size; bytes that are no UTF-8 encoding give the rune \<open>U+FFFD\<close> and the size 1. The rune
  is written back in its UTF-8 encoding, so the model returns the bytes written.
\<close>

definition RuneError :: string where
  "RuneError = [CHR 0xEF, CHR 0xBF, CHR 0xBD]"

definition byte_in :: "nat \<Rightarrow> nat \<Rightarrow> char \<Rightarrow> bool" where
  "byte_in lo hi c = (lo \<le> (of_char c :: nat) \<and> (of_char c :: nat) \<le> hi)"

definition DecodeRuneInString :: "string \<Rightarrow> string \<times> nat" where
  "DecodeRuneInString s =
     (case s of
        [] \<Rightarrow> (RuneError, 0)
      | b0 # r \<Rightarrow>
          if byte_in 0x00 0x7F b0 then ([b0], 1)
          else if byte_in 0xC2 0xDF b0 then
            (case r of
               b1 # r1 \<Rightarrow> if byte_in 0x80 0xBF b1 then ([b0, b1], 2) else (RuneError, 1)
             | [] \<Rightarrow> (RuneError, 1))
          else if byte_in 0xE0 0xEF b0 then
            (case r of
               b1 # b2 # r2 \<Rightarrow>
                 if byte_in (if b0 = CHR 0xE0 then 0xA0 else 0x80)
                            (if b0 = CHR 0xED then 0x9F else 0xBF) b1
                    \<and> byte_in 0x80 0xBF b2
                 then ([b0, b1, b2], 3) else (RuneError, 1)
             | _ \<Rightarrow> (RuneError, 1))
          else if byte_in 0xF0 0xF4 b0 then
            (case r of
               b1 # b2 # b3 # r3 \<Rightarrow>
                 if byte_in (if b0 = CHR 0xF0 then 0x90 else 0x80)
                            (if b0 = CHR 0xF4 then 0x8F else 0xBF) b1
                    \<and> byte_in 0x80 0xBF b2 \<and> byte_in 0x80 0xBF b3
                 then ([b0, b1, b2, b3], 4) else (RuneError, 1)
             | _ \<Rightarrow> (RuneError, 1))
          else (RuneError, 1))"

text \<open>
  One directive, from the character after the percent sign: the text written for it and
  the format that is left.
\<close>

definition directive :: "string \<Rightarrow> string \<times> string" where
  "directive fmt =
     (case argNumber (dropWhile is_flag fmt) True of
        (fmt2, afterIndex2, good2) \<Rightarrow>
     (case width fmt2 afterIndex2 good2 of
        (out3, fmt3, afterIndex3, good3) \<Rightarrow>
     (case precision fmt3 afterIndex3 good3 of
        (out4, fmt4, afterIndex4, good4) \<Rightarrow>
     (case (if afterIndex4 then (fmt4, afterIndex4, good4) else argNumber fmt4 good4) of
        (fmt5, afterIndex5, good5) \<Rightarrow>
     (case fmt5 of
        [] \<Rightarrow> (out3 @ out4 @ ''%!(NOVERB)'', [])
      | c # cs \<Rightarrow>
          (case DecodeRuneInString fmt5 of
             (verb, n) \<Rightarrow>
               (out3 @ out4 @
                  (if verb = ''%'' then ''%''
                   else if good5 then ''%!'' @ verb @ ''(MISSING)''
                   else ''%!'' @ verb @ ''(BADINDEX)''),
                drop n fmt5)))))))"

lemma parsenum_loop_length: "parsenum_loop num isnum s = (n, b, rest) \<Longrightarrow> length rest \<le> length s"
  by (induction num isnum s rule: parsenum_loop.induct) (auto split: if_splits)

lemma parsenum_length: "parsenum s = (n, b, rest) \<Longrightarrow> length rest \<le> length s"
  unfolding parsenum_def by (rule parsenum_loop_length)

lemma argNumber_length: "argNumber s g = (rest, ai, g') \<Longrightarrow> length rest \<le> length s"
  by (auto simp: argNumber_def split: list.splits if_splits prod.splits)

lemma width_length: "width s ai g = (out, rest, ai', g') \<Longrightarrow> length rest \<le> length s"
  by (auto simp: width_def width_num_def split: list.splits if_splits prod.splits
      dest: parsenum_length)

lemma precision_length: "precision s ai g = (out, rest, ai', g') \<Longrightarrow> length rest \<le> length s"
proof (cases s)
  case Nil
  assume "precision s ai g = (out, rest, ai', g')"
  with Nil show ?thesis by (simp add: precision_def)
next
  case (Cons c cs)
  assume a: "precision s ai g = (out, rest, ai', g')"
  show ?thesis
  proof (cases "c = CHR ''.''")
    case False
    with a Cons show ?thesis by (simp add: precision_def)
  next
    case True
    obtain fmt2 ai2 g2 where n: "argNumber cs (if ai then False else g) = (fmt2, ai2, g2)"
      by (metis prod_cases3)
    then have l2: "length fmt2 \<le> length cs" by (rule argNumber_length)
    from a Cons True n have "length rest \<le> length fmt2"
      by (auto simp: precision_def precision_num_def split: list.splits if_splits prod.splits
          dest: parsenum_length)
    with l2 Cons show ?thesis by simp
  qed
qed

lemma directive_length: "directive s = (out, rest) \<Longrightarrow> length rest \<le> length s"
proof -
  assume a: "directive s = (out, rest)"
  obtain f2 a2 g2 where 1: "argNumber (dropWhile is_flag s) True = (f2, a2, g2)"
    by (metis prod_cases3)
  obtain o3 f3 a3 g3 where 2: "width f2 a2 g2 = (o3, f3, a3, g3)"
    by (metis prod_cases4)
  obtain o4 f4 a4 g4 where 3: "precision f3 a3 g3 = (o4, f4, a4, g4)"
    by (metis prod_cases4)
  obtain f5 a5 g5 where 4: "(if a4 then (f4, a4, g4) else argNumber f4 g4) = (f5, a5, g5)"
    by (metis prod_cases3)
  have "length f2 \<le> length (dropWhile is_flag s)" using 1 by (rule argNumber_length)
  moreover have "length (dropWhile is_flag s) \<le> length s" by (rule length_dropWhile_le)
  moreover have "length f3 \<le> length f2" using 2 by (rule width_length)
  moreover have "length f4 \<le> length f3" using 3 by (rule precision_length)
  moreover have "length f5 \<le> length f4" using 4 by (auto split: if_splits dest: argNumber_length)
  moreover have "length rest \<le> length f5"
    using a 1 2 3 4 by (auto simp: directive_def split: list.splits prod.splits)
  ultimately show ?thesis by linarith
qed

text \<open>The message of the error that \<open>fmt.Errorf(format)\<close> returns.\<close>

function Errorf :: "string \<Rightarrow> string" where
  "Errorf [] = []"
| "Errorf (c # cs) =
     (if c = CHR ''%'' then (case directive cs of (out, rest) \<Rightarrow> out @ Errorf rest)
      else c # Errorf cs)"
  by pat_completeness auto
termination
  by (relation "measure length") (auto dest: directive_length[OF sym] simp: less_Suc_eq_le)

section \<open>The data of the program\<close>

text \<open>
  The input and the output of \<open>Expand\<close> are values of Go's empty interface. The program tells
  apart a \<open>string\<close>, a \<open>[]interface{}\<close> and a \<open>map[string]interface{}\<close>, and produces an \<open>int\<close>,
  a \<open>float64\<close> or a \<open>bool\<close>; \<open>VNil\<close> is the nil interface and \<open>VOther\<close> stands for a value of any
  other dynamic type (the parameter \<open>'o\<close>), a map with keys that are no strings among them.
  A map is the list of its entries in the order in which the \<open>range\<close> loop of this run visits
  them (Go leaves that order open); the keys of a map are distinct.
\<close>

datatype ('f, 'o) vtree =
    VNil
  | VString string
  | VInt int
  | VFloat64 'f
  | VBool bool
  | VSlice "('f, 'o) vtree list"
  | VMap "(string \<times> ('f, 'o) vtree) list"
  | VOther 'o

text \<open>What \<open>expandValue\<close> returns for a placeholder is a string, an int, a float64 or a bool.\<close>

datatype 'f expanded =
    EString string
  | EInt int
  | EFloat64 'f
  | EBool bool

fun to_vtree :: "'f expanded \<Rightarrow> ('f, 'o) vtree" where
  "to_vtree (EString s) = VString s"
| "to_vtree (EInt i) = VInt i"
| "to_vtree (EFloat64 f) = VFloat64 f"
| "to_vtree (EBool b) = VBool b"

text \<open>\<open>fmt.Sprintf("%v", expanded)\<close>.\<close>

fun Sprintf_v :: "'f float64 \<Rightarrow> 'f expanded \<Rightarrow> string" where
  "Sprintf_v lib (EString s) = s"
| "Sprintf_v lib (EInt i) = Itoa i"
| "Sprintf_v lib (EFloat64 f) = FormatFloat lib f"
| "Sprintf_v lib (EBool b) = (if b then ''true'' else ''false'')"

text \<open>
  The errors of \<open>expandValue\<close>, one constructor for each place that returns one, named as the
  specification names them. \<open>MissingVariable\<close> is the error of the lookup function, returned
  as it is; it is known by its message.
\<close>

datatype error =
    MalformedPlaceholder string
  | MissingVariable string
  | InvalidNumber string
  | InvalidBoolean string
  | UnsupportedFormat string

text \<open>\<open>err.Error()\<close>.\<close>

fun Error :: "error \<Rightarrow> string" where
  "Error (MalformedPlaceholder str) = ''could not parse '' @ str"
| "Error (MissingVariable msg) = msg"
| "Error (InvalidNumber v) = v @ '' is not a valid number''"
| "Error (InvalidBoolean v) = v @ '' is not a valid boolean''"
| "Error (UnsupportedFormat f) = ''format '' @ f @ '' is not supported''"

text \<open>
  \<open>VariableLookup\<close> is \<open>func(key string) (*string, error)\<close>: the pointer (\<open>None\<close> for nil) and the
  error (\<open>None\<close> for nil, else its message). A Go function may read and change state of its
  own, so the lookup takes the state \<open>'s\<close> and returns it.
\<close>

type_synonym 's VariableLookup = "string \<Rightarrow> 's \<Rightarrow> (string option \<times> string option) \<times> 's"

section \<open>\<open>expandValue\<close>\<close>

text \<open>The \<open>switch format\<close> at the end of \<open>expandValue\<close>, on the text \<open>*value\<close>.\<close>

definition switch_format :: "'f float64 \<Rightarrow> string \<Rightarrow> string \<Rightarrow> error + 'f expanded" where
  "switch_format lib fmt v =
     (if fmt = [] then Inr (EString v)
      else if fmt = ''string'' then Inr (EString v)
      else if fmt = ''number'' then
        (case Atoi v of
           Some formatted \<Rightarrow> Inr (EInt formatted)
         | None \<Rightarrow>
             (case ParseFloat lib v of
                Some formatted \<Rightarrow> Inr (EFloat64 formatted)
              | None \<Rightarrow> Inl (InvalidNumber v)))
      else if fmt = ''boolean'' then
        (if v = ''0'' then Inr (EBool False)
         else if v = ''1'' then Inr (EBool True)
         else if v = ''false'' then Inr (EBool False)
         else if v = ''true'' then Inr (EBool True)
         else if v = ''no'' then Inr (EBool False)
         else if v = ''yes'' then Inr (EBool True)
         else Inl (InvalidBoolean v))
      else Inl (UnsupportedFormat fmt))"

definition expandValue ::
  "'f float64 \<Rightarrow> string \<Rightarrow> 's VariableLookup \<Rightarrow> 's \<Rightarrow> (error + 'f expanded) \<times> 's" where
  "expandValue lib str values s =
     (case expandValueRegex str of
        None \<Rightarrow> (Inl (MalformedPlaceholder str), s)
      | Some p \<Rightarrow>
          (case values (name p) s of
             ((val, err), s') \<Rightarrow>
               (case err of
                  Some e \<Rightarrow>
                    if hasFallback p = [] then (Inl (MissingVariable e), s')
                    else (switch_format lib (format p) (fallback p), s')
                | None \<Rightarrow>
                    (case val of
                       None \<Rightarrow> (Inr (EString str), s')
                     | Some v \<Rightarrow> (switch_format lib (format p) v, s')))))"

section \<open>\<open>Expand\<close>\<close>

text \<open>
  The function handed to \<open>ReplaceAllStringFunc\<close>. It works on the slice \<open>errs\<close> it has captured
  and, through the lookup, on the state of the lookup.
\<close>

definition replace_match ::
  "'f float64 \<Rightarrow> 's VariableLookup \<Rightarrow> string \<Rightarrow> error list \<times> 's \<Rightarrow> string \<times> (error list \<times> 's)" where
  "replace_match lib values str a =
     (case a of
        (errs, s) \<Rightarrow>
          if HasPrefix str [backslash] then (drop 1 str, (errs, s))
          else
            (case expandValue lib str values s of
               (Inl err, s') \<Rightarrow> (str, (errs @ [err], s'))
             | (Inr expanded, s') \<Rightarrow> (Sprintf_v lib expanded, (errs, s'))))"

text \<open>
  The closure \<open>recursion\<close>, with the loop over the elements of a slice and the loop over the
  entries of a map: the new value and the errors, and the state of the lookup.
\<close>

fun recursion ::
    "'f float64 \<Rightarrow> 's VariableLookup \<Rightarrow> ('f, 'o) vtree \<Rightarrow> 's \<Rightarrow> (('f, 'o) vtree \<times> error list) \<times> 's"
  and recursion_slice ::
    "'f float64 \<Rightarrow> 's VariableLookup \<Rightarrow> ('f, 'o) vtree list \<Rightarrow> 's
       \<Rightarrow> (('f, 'o) vtree list \<times> error list) \<times> 's"
  and recursion_map ::
    "'f float64 \<Rightarrow> 's VariableLookup \<Rightarrow> (string \<times> ('f, 'o) vtree) list \<Rightarrow> 's
       \<Rightarrow> ((string \<times> ('f, 'o) vtree) list \<times> error list) \<times> 's"
where
  "recursion lib values (VString current) s =
     (if singleRegex current then
        (case expandValue lib current values s of
           (Inl err, s') \<Rightarrow> ((VString current, [err]), s')
         | (Inr expanded, s') \<Rightarrow> ((to_vtree expanded, []), s'))
      else
        (case ReplaceAllStringFunc current (replace_match lib values) ([], s) of
           (expanded, (errs, s')) \<Rightarrow> ((VString expanded, errs), s')))"
| "recursion lib values (VSlice current) s =
     (case recursion_slice lib values current s of
        ((current2, errs), s') \<Rightarrow> ((VSlice current2, errs), s'))"
| "recursion lib values (VMap current) s =
     (case recursion_map lib values current s of
        ((current2, errs), s') \<Rightarrow> ((VMap current2, errs), s'))"
| "recursion lib values VNil s = ((VNil, []), s)"
| "recursion lib values (VInt i) s = ((VInt i, []), s)"
| "recursion lib values (VFloat64 f) s = ((VFloat64 f, []), s)"
| "recursion lib values (VBool b) s = ((VBool b, []), s)"
| "recursion lib values (VOther x) s = ((VOther x, []), s)"
| "recursion_slice lib values [] s = (([], []), s)"
| "recursion_slice lib values (x # xs) s =
     (case recursion lib values x s of
        ((v, err), s1) \<Rightarrow>
          (case recursion_slice lib values xs s1 of
             ((vs, errs), s2) \<Rightarrow> ((v # vs, err @ errs), s2)))"
| "recursion_map lib values [] s = (([], []), s)"
| "recursion_map lib values ((k, x) # kvs) s =
     (case recursion lib values x s of
        ((v, err), s1) \<Rightarrow>
          (case recursion_map lib values kvs s1 of
             ((vs, errs), s2) \<Rightarrow> (((k, v) # vs, err @ errs), s2)))"

text \<open>
  \<open>Expand\<close> returns the output and an error, \<open>None\<close> for nil, else the message of the error
  that \<open>fmt.Errorf\<close> makes of the joined messages.
\<close>

definition Expand ::
  "'f float64 \<Rightarrow> ('f, 'o) vtree \<Rightarrow> 's VariableLookup \<Rightarrow> 's \<Rightarrow> (('f, 'o) vtree \<times> string option) \<times> 's" where
  "Expand lib input values s =
     (case recursion lib values input s of
        ((output, errs), s') \<Rightarrow>
          if 0 < length errs then ((output, Some (Errorf (Join (map Error errs) '', ''))), s')
          else ((output, None), s'))"


definition ExpandMap ::
  "'f float64 \<Rightarrow> ('f, 'o) vtree \<Rightarrow> (string \<rightharpoonup> string) \<Rightarrow> ('f, 'o) vtree \<times> string option" where
  "ExpandMap lib input values =
     fst (Expand lib input
            (\<lambda>key s. case values key of
                        None \<Rightarrow> ((None, Some (''variable '' @ key @ '' is missing'')), s)
                      | Some v \<Rightarrow> ((Some v, None), s))
            ())"

section \<open>Values for the examples\<close>

text \<open>
  The examples need a value for each parameter. \<open>example_float64\<close> takes a float64 to be its
  decimal text and reads the one text \<open>42.5\<close>. \<open>counting_lookup\<close> looks a name up in a table
  as \<open>ExpandMap\<close> does, and its state is the number of calls it has seen. \<open>skipping_lookup\<close>
  returns a nil pointer and a nil error for every name, and counts its calls too;
  \<open>refusing_lookup\<close> returns an error of its own for every name.
\<close>

definition example_float64 :: "string float64" where
  "example_float64 = \<lparr>ParseFloat = (\<lambda>t. if t = ''42.5'' then Some t else None), FormatFloat = (\<lambda>f. f)\<rparr>"

definition counting_lookup :: "(string \<times> string) list \<Rightarrow> nat VariableLookup" where
  "counting_lookup table key n =
     (case map_of table key of
        None \<Rightarrow> ((None, Some (''variable '' @ key @ '' is missing'')), Suc n)
      | Some v \<Rightarrow> ((Some v, None), Suc n))"


definition skipping_lookup :: "nat VariableLookup" where
  "skipping_lookup key n = ((None, None), Suc n)"




section \<open>Facts about the patterns\<close>

subsection \<open>The repetition\<close>

lemma star_stop: "ys = [] \<or> \<not> cls (hd ys) \<Longrightarrow> star cls k acc ys = k acc ys"
  by (cases ys) auto

lemma star_longest:
  "list_all cls xs \<Longrightarrow> ys = [] \<or> \<not> cls (hd ys) \<Longrightarrow> k (acc @ xs) ys = Some r
     \<Longrightarrow> star cls k acc (xs @ ys) = Some r"
proof (induction xs arbitrary: acc)
  case Nil
  then show ?case by (simp add: star_stop)
next
  case (Cons x xs)
  have "star cls k (acc @ [x]) (xs @ ys) = Some r"
    using Cons.prems by (intro Cons.IH) auto
  with Cons.prems show ?case by simp
qed

lemma star_snoc:
  "list_all cls xs \<Longrightarrow> cls c \<Longrightarrow>
     star cls k acc (xs @ [c]) =
       (case k (acc @ xs @ [c]) [] of
          Some r \<Rightarrow> Some r
        | None \<Rightarrow> star cls (\<lambda>m r. k m (r @ [c])) acc xs)"
proof (induction xs arbitrary: acc)
  case Nil
  then show ?case by (simp split: option.splits)
next
  case (Cons x xs)
  then show ?case by (simp split: option.splits)
qed

lemma star_None:
  "(\<And>m r. s = m @ r \<Longrightarrow> list_all cls m \<Longrightarrow> k (acc @ m) r = None) \<Longrightarrow> star cls k acc s = None"
proof (induction s arbitrary: acc)
  case Nil
  then show ?case by simp
next
  case (Cons c cs)
  have here: "k acc (c # cs) = None" using Cons.prems[of "[]" "c # cs"] by simp
  show ?case
  proof (cases "cls c")
    case False
    with here show ?thesis by simp
  next
    case True
    have "star cls k (acc @ [c]) cs = None"
    proof (rule Cons.IH)
      fix m r assume "cs = m @ r" "list_all cls m"
      with True show "k ((acc @ [c]) @ m) r = None"
        using Cons.prems[of "c # m" r] by simp
    qed
    with here True show ?thesis by simp
  qed
qed

lemma star_SomeD:
  "star cls k acc s = Some x \<Longrightarrow> \<exists>m r. s = m @ r \<and> list_all cls m \<and> k (acc @ m) r = Some x"
proof (induction s arbitrary: acc)
  case Nil
  then show ?case by simp
next
  case (Cons c cs)
  show ?case
  proof (cases "cls c \<and> star cls k (acc @ [c]) cs \<noteq> None")
    case True
    with Cons.prems have "star cls k (acc @ [c]) cs = Some x" by auto
    from Cons.IH[OF this] obtain m r where "cs = m @ r" "list_all cls m" "k ((acc @ [c]) @ m) r = Some x"
      by blast
    with True have "c # cs = (c # m) @ r \<and> list_all cls (c # m) \<and> k (acc @ (c # m)) r = Some x"
      by simp
    then show ?thesis by blast
  next
    case False
    with Cons.prems have "k acc (c # cs) = Some x" by (auto split: if_splits option.splits)
    then have "c # cs = [] @ (c # cs) \<and> list_all cls [] \<and> k (acc @ []) (c # cs) = Some x" by simp
    then show ?thesis by blast
  qed
qed

subsection \<open>\<open>singleRegex\<close> and \<open>detectRegex\<close>\<close>

lemma literal_append [simp]: "literal l (l @ s) = Some s"
  by (simp add: literal_def HasPrefix_def)

lemma literal_SomeD: "literal l s = Some r \<Longrightarrow> s = l @ r"
  by (auto simp: literal_def HasPrefix_def split: if_splits) (metis append_take_drop_id)

lemma singleRegex_iff:
  "singleRegex s \<longleftrightarrow> (\<exists>m. s = ''${'' @ m @ ''}'' \<and> m \<noteq> [] \<and> CHR ''}'' \<notin> set m)"
proof
  assume "singleRegex s"
  then obtain body m where b: "literal ''${'' s = Some body"
    and st: "star (\<lambda>c. c \<noteq> CHR ''}'') (\<lambda>m rest. if m \<noteq> [] \<and> rest = ''}'' then Some m else None) [] body = Some m"
    by (auto simp: singleRegex_def split: option.splits)
  from star_SomeD[OF st] obtain m' r where "body = m' @ r" "list_all (\<lambda>c. c \<noteq> CHR ''}'') m'"
    "(if [] @ m' \<noteq> [] \<and> r = ''}'' then Some ([] @ m') else None) = Some m" by blast
  then have "body = m' @ ''}''" "m' \<noteq> []" "CHR ''}'' \<notin> set m'"
    by (auto split: if_splits simp: list_all_iff)
  with literal_SomeD[OF b] show "\<exists>m. s = ''${'' @ m @ ''}'' \<and> m \<noteq> [] \<and> CHR ''}'' \<notin> set m"
    by blast
next
  assume "\<exists>m. s = ''${'' @ m @ ''}'' \<and> m \<noteq> [] \<and> CHR ''}'' \<notin> set m"
  then obtain m where s: "s = ''${'' @ m @ ''}''" and m: "m \<noteq> []" "CHR ''}'' \<notin> set m" by blast
  have "star (\<lambda>c. c \<noteq> CHR ''}'') (\<lambda>m rest. if m \<noteq> [] \<and> rest = ''}'' then Some m else None) [] (m @ ''}'') = Some m"
    using m by (intro star_longest) (auto simp: list_all_iff)
  then show "singleRegex s"
    unfolding singleRegex_def s using literal_append[of "''${''" "m @ ''}''"] by simp
qed

lemma placeholder_at_token:
  "m \<noteq> [] \<Longrightarrow> CHR ''}'' \<notin> set m \<Longrightarrow> placeholder_at (''${'' @ m @ ''}'' @ post) = Some (''${'' @ m @ ''}'', post)"
proof -
  assume m: "m \<noteq> []" "CHR ''}'' \<notin> set m"
  have "star (\<lambda>c. c \<noteq> CHR ''}'')
            (\<lambda>m rest.
               (case rest of
                  [] \<Rightarrow> None
                | c # rest' \<Rightarrow>
                    if m \<noteq> [] \<and> c = CHR ''}'' then Some (''${'' @ m @ ''}'', rest') else None))
            [] (m @ (''}'' @ post)) = Some (''${'' @ m @ ''}'', post)"
    using m by (intro star_longest) (auto simp: list_all_iff)
  then show ?thesis
    unfolding placeholder_at_def using literal_append[of "''${''" "m @ ''}'' @ post"] by simp
qed

lemma placeholder_at_None: "s = [] \<or> hd s \<noteq> CHR ''$'' \<Longrightarrow> placeholder_at s = None"
  by (cases s) (auto simp: placeholder_at_def literal_def HasPrefix_def)

lemma detectRegex_None:
  "s = [] \<or> (hd s \<noteq> CHR ''$'' \<and> (hd s \<noteq> backslash \<or> tl s = [] \<or> hd (tl s) \<noteq> CHR ''$'')) \<Longrightarrow> detectRegex s = None"
  by (cases s) (auto simp: detectRegex_def placeholder_at_None)

lemma detectRegex_token:
  "m \<noteq> [] \<Longrightarrow> CHR ''}'' \<notin> set m \<Longrightarrow>
     detectRegex (''${'' @ m @ ''}'' @ post) = Some (''${'' @ m @ ''}'', post)"
  using placeholder_at_token[of m post] by (simp add: detectRegex_def backslash_def)

lemma detectRegex_escaped:
  "m \<noteq> [] \<Longrightarrow> CHR ''}'' \<notin> set m \<Longrightarrow>
     detectRegex (backslash # ''${'' @ m @ ''}'' @ post) = Some (backslash # ''${'' @ m @ ''}'', post)"
  using placeholder_at_token[of m post] by (simp add: detectRegex_def)

lemma ReplaceAll_plain:
  "CHR ''$'' \<notin> set pre \<Longrightarrow> pre = [] \<or> last pre \<noteq> backslash \<or> t = [] \<or> hd t \<noteq> CHR ''$'' \<Longrightarrow>
     ReplaceAllStringFunc (pre @ t) repl a =
       (case ReplaceAllStringFunc t repl a of (out, a') \<Rightarrow> (pre @ out, a'))"
proof (induction pre)
  case Nil
  then show ?case by simp
next
  case (Cons c pre)
  have "detectRegex (c # pre @ t) = None"
    by (rule detectRegex_None) (use Cons.prems in \<open>cases pre; cases t; auto\<close>)
  moreover have "ReplaceAllStringFunc (pre @ t) repl a =
       (case ReplaceAllStringFunc t repl a of (out, a') \<Rightarrow> (pre @ out, a'))"
    by (rule Cons.IH) (use Cons.prems in \<open>auto split: if_splits\<close>)
  ultimately show ?case by (simp split: prod.splits)
qed

lemma ReplaceAll_no_dollar:
  "CHR ''$'' \<notin> set s \<Longrightarrow> ReplaceAllStringFunc s repl a = (s, a)"
  using ReplaceAll_plain[of s "[]" repl a] by simp

lemma ReplaceAll_escaped:
  assumes "CHR ''$'' \<notin> set pre" "CHR ''$'' \<notin> set post" "m \<noteq> []" "CHR ''}'' \<notin> set m"
  shows "ReplaceAllStringFunc (pre @ backslash # ''${'' @ m @ ''}'' @ post) repl a =
           (pre @ fst (repl (backslash # ''${'' @ m @ ''}'') a) @ post, snd (repl (backslash # ''${'' @ m @ ''}'') a))"
proof -
  have "ReplaceAllStringFunc (backslash # ''${'' @ m @ ''}'' @ post) repl a =
          (fst (repl (backslash # ''${'' @ m @ ''}'') a) @ post, snd (repl (backslash # ''${'' @ m @ ''}'') a))"
    using detectRegex_escaped[OF assms(3,4), of post]
    by (simp add: ReplaceAll_no_dollar[OF assms(2)] split: prod.splits)
  moreover have "ReplaceAllStringFunc (pre @ backslash # ''${'' @ m @ ''}'' @ post) repl a =
       (case ReplaceAllStringFunc (backslash # ''${'' @ m @ ''}'' @ post) repl a of (out, a') \<Rightarrow> (pre @ out, a'))"
    by (rule ReplaceAll_plain) (use assms in \<open>auto simp: backslash_def\<close>)
  ultimately show ?thesis by simp
qed

lemma ReplaceAll_token:
  assumes "CHR ''$'' \<notin> set pre" "pre = [] \<or> last pre \<noteq> backslash" "CHR ''$'' \<notin> set post" "m \<noteq> []" "CHR ''}'' \<notin> set m"
  shows "ReplaceAllStringFunc (pre @ ''${'' @ m @ ''}'' @ post) repl a =
           (pre @ fst (repl (''${'' @ m @ ''}'') a) @ post, snd (repl (''${'' @ m @ ''}'') a))"
proof -
  have "ReplaceAllStringFunc (''${'' @ m @ ''}'' @ post) repl a =
          (fst (repl (''${'' @ m @ ''}'') a) @ post, snd (repl (''${'' @ m @ ''}'') a))"
    using detectRegex_token[OF assms(4,5), of post]
    by (simp add: ReplaceAll_no_dollar[OF assms(3)] split: prod.splits)
  moreover have "ReplaceAllStringFunc (pre @ ''${'' @ m @ ''}'' @ post) repl a =
       (case ReplaceAllStringFunc (''${'' @ m @ ''}'' @ post) repl a of (out, a') \<Rightarrow> (pre @ out, a'))"
    by (rule ReplaceAll_plain) (use assms in \<open>auto\<close>)
  ultimately show ?thesis by simp
qed

subsection \<open>The pattern of \<open>expandValue\<close>\<close>

lemma star_all: "list_all cls xs \<Longrightarrow> k (acc @ xs) [] = Some r \<Longrightarrow> star cls k acc xs = Some r"
  using star_longest[of cls xs "[]" k acc r] by simp

lemma star_last:
  "list_all cls xs \<Longrightarrow> cls c \<Longrightarrow> k (acc @ xs @ [c]) [] = None \<Longrightarrow> k (acc @ xs) [c] = Some r
     \<Longrightarrow> star cls k acc (xs @ [c]) = Some r"
  by (simp add: star_snoc star_all)

lemma closing_simps [simp]: "closing p ''}'' = Some p" "closing p [] = None"
  by (simp_all add: closing_def)

lemma match_hasFallback_close: "match_hasFallback p ''}'' = Some p"
  by (simp add: match_hasFallback_def literal_def HasPrefix_def)

lemma match_hasFallback_fallback:
  assumes "linefeed \<notin> set fb"
  shows "match_hasFallback p ('':-'' @ fb @ ''}'') = Some (p\<lparr>hasFallback := '':-'' @ fb, fallback := fb\<rparr>)"
proof -
  have "star (\<lambda>c. c \<noteq> linefeed)
          (\<lambda>fb r. closing (p\<lparr>hasFallback := '':-'' @ fb, fallback := fb\<rparr>) r) [] (fb @ ''}'')
        = Some (p\<lparr>hasFallback := '':-'' @ fb, fallback := fb\<rparr>)"
    using assms by (intro star_last) (auto simp: list_all_iff linefeed_def)
  then show ?thesis
    unfolding match_hasFallback_def using literal_append[of "'':-''" "fb @ ''}''"] by simp
qed


lemma match_hasFormat_format:
  assumes "fmt \<in> {''number'', ''boolean'', ''string''}"
    and "match_hasFallback (p\<lparr>hasFormat := CHR '':'' # fmt, format := fmt\<rparr>) t = Some q"
  shows "match_hasFormat p (CHR '':'' # fmt @ t) = Some q"
  using assms by (auto simp: match_hasFormat_def literal_def HasPrefix_def)

lemma expandValueRegex_colon:
  assumes "n \<noteq> []" "CHR '':'' \<notin> set n"
    and "match_hasFormat \<lparr>name = n, hasFormat = [], format = [], hasFallback = [], fallback = []\<rparr> (CHR '':'' # t) = Some q"
  shows "expandValueRegex (''${'' @ n @ CHR '':'' # t) = Some q"
proof -
  let ?k = "\<lambda>n rest. if n = [] then None
               else match_hasFormat
                      \<lparr>name = n, hasFormat = [], format = [], hasFallback = [], fallback = []\<rparr> rest"
  have "star (\<lambda>c. c \<noteq> CHR '':'') ?k [] (n @ CHR '':'' # t) = Some q"
    using assms by (intro star_longest) (auto simp: list_all_iff)
  then show ?thesis
    unfolding expandValueRegex_def using literal_append[of "''${''" "n @ CHR '':'' # t"] by simp
qed


lemma expandValueRegex_format:
  assumes "n \<noteq> []" "CHR '':'' \<notin> set n" "fmt \<in> {''number'', ''boolean'', ''string''}"
  shows "expandValueRegex (''${'' @ n @ '':'' @ fmt @ ''}'') =
           Some \<lparr>name = n, hasFormat = CHR '':'' # fmt, format = fmt, hasFallback = [], fallback = []\<rparr>"
  using expandValueRegex_colon[OF assms(1,2), of "fmt @ ''}''"]
    match_hasFormat_format[OF assms(3), of _ "''}''"]
  by (simp add: match_hasFallback_close)


lemma expandValueRegex_format_fallback:
  assumes "n \<noteq> []" "CHR '':'' \<notin> set n" "fmt \<in> {''number'', ''boolean'', ''string''}" "linefeed \<notin> set fb"
  shows "expandValueRegex (''${'' @ n @ '':'' @ fmt @ '':-'' @ fb @ ''}'') =
           Some \<lparr>name = n, hasFormat = CHR '':'' # fmt, format = fmt, hasFallback = '':-'' @ fb, fallback = fb\<rparr>"
  using expandValueRegex_colon[OF assms(1,2), of "fmt @ '':-'' @ fb @ ''}''"]
    match_hasFormat_format[OF assms(3), of _ "'':-'' @ fb @ ''}''"]
    match_hasFallback_fallback[OF assms(4)]
  by simp

lemma closing_SomeD: "closing p r = Some q \<Longrightarrow> r = ''}'' \<and> q = p"
  by (auto simp: closing_def split: if_splits)

lemma match_hasFallback_SomeD:
  assumes "match_hasFallback p t = Some q"
  shows "(t = ''}'' \<and> q = p) \<or> (\<exists>fb. t = '':-'' @ fb @ ''}'' \<and> q = p\<lparr>hasFallback := '':-'' @ fb, fallback := fb\<rparr>)"
proof (cases "literal '':-'' t")
  case None
  with assms show ?thesis by (auto simp: match_hasFallback_def dest: closing_SomeD)
next
  case (Some t')
  show ?thesis
  proof (cases "star (\<lambda>c. c \<noteq> linefeed)
                  (\<lambda>fb r. closing (p\<lparr>hasFallback := '':-'' @ fb, fallback := fb\<rparr>) r) [] t'")
    case None
    with Some assms show ?thesis by (auto simp: match_hasFallback_def dest: closing_SomeD)
  next
    case (Some q')
    from star_SomeD[OF Some] obtain m r where mr: "t' = m @ r"
      "closing (p\<lparr>hasFallback := '':-'' @ ([] @ m), fallback := [] @ m\<rparr>) r = Some q'" by blast
    from closing_SomeD[OF mr(2)] mr(1) have "t' = m @ ''}''" "q' = p\<lparr>hasFallback := '':-'' @ m, fallback := m\<rparr>"
      by simp_all
    moreover from assms \<open>literal '':-'' t = Some t'\<close> Some have "q = q'"
      by (simp add: match_hasFallback_def)
    moreover from literal_SomeD[OF \<open>literal '':-'' t = Some t'\<close>] have "t = '':-'' @ t'" .
    ultimately show ?thesis by auto
  qed
qed

lemma match_hasFormat_SomeD:
  assumes "match_hasFormat p t = Some q"
  shows "(\<exists>q'. match_hasFallback p t = Some q' \<and> q = q')
       \<or> (\<exists>fmt t'. fmt \<in> {''number'', ''boolean'', ''string''} \<and> t = CHR '':'' # fmt @ t'
              \<and> match_hasFallback (p\<lparr>hasFormat := CHR '':'' # fmt, format := fmt\<rparr>) t' = Some q)"
  using assms
  by (auto simp: match_hasFormat_def split: option.splits dest!: literal_SomeD)

lemma format_tag_formats:
  "format_tag ''number'' = ''number''" "format_tag ''boolean'' = ''boolean''" "format_tag ''string'' = ''string''"
  by (simp_all add: HasPrefix_def)

lemma format_tag_append_fallback:
  "CHR '':'' \<notin> set fmt \<Longrightarrow> format_tag (fmt @ '':-'' @ fb) = fmt"
  by (induction fmt) (auto simp: HasPrefix_def)

lemma match_hasFormat_bad_tag:
  assumes "\<not> HasPrefix T ''-''" "format_tag T \<notin> {''number'', ''boolean'', ''string''}"
  shows "match_hasFormat p (CHR '':'' # T @ ''}'') = None"
proof (rule ccontr)
  assume "match_hasFormat p (CHR '':'' # T @ ''}'') \<noteq> None"
  then obtain q where q: "match_hasFormat p (CHR '':'' # T @ ''}'') = Some q" by auto
  from match_hasFormat_SomeD[OF q] show False
  proof (elim disjE exE conjE)
    fix q' assume "match_hasFallback p (CHR '':'' # T @ ''}'') = Some q'"
    from match_hasFallback_SomeD[OF this] obtain fb where "CHR '':'' # T @ ''}'' = '':-'' @ fb @ ''}''"
      by auto
    then have "T = CHR ''-'' # fb" by simp
    with assms(1) show False by (simp add: HasPrefix_def)
  next
    fix fmt t'
    assume fmt: "fmt \<in> {''number'', ''boolean'', ''string''}"
      and eq: "CHR '':'' # T @ ''}'' = CHR '':'' # fmt @ t'"
      and m: "match_hasFallback (p\<lparr>hasFormat := CHR '':'' # fmt, format := fmt\<rparr>) t' = Some q"
    from match_hasFallback_SomeD[OF m] consider "t' = ''}''" | fb where "t' = '':-'' @ fb @ ''}''"
      by auto
    then show False
    proof cases
      case 1
      with eq have "T = fmt" by simp
      moreover have "format_tag fmt = fmt"
        using fmt by (elim insertE emptyE) (simp_all only: format_tag_formats)
      ultimately show False using fmt assms(2) by simp
    next
      case 2
      with eq have "T @ ''}'' = (fmt @ '':-'' @ fb) @ ''}''" by simp
      then have "T = fmt @ '':-'' @ fb" by (simp only: append_same_eq)
      moreover have "CHR '':'' \<notin> set fmt" using fmt by auto
      ultimately have "format_tag T = fmt" using format_tag_append_fallback[of fmt fb] by simp
      with fmt assms(2) show False by simp
    qed
  qed
qed

lemma match_hasFormat_no_colon:
  assumes "r \<noteq> []" "hd r \<noteq> CHR '':''" "r \<noteq> ''}''"
  shows "match_hasFormat p r = None"
proof (rule ccontr)
  assume "match_hasFormat p r \<noteq> None"
  then obtain q where q: "match_hasFormat p r = Some q" by auto
  from match_hasFormat_SomeD[OF q] assms show False
    by (auto dest!: match_hasFallback_SomeD)
qed

lemma expandValueRegex_bad_tag:
  assumes "CHR '':'' \<notin> set n" "\<not> HasPrefix T ''-''" "format_tag T \<notin> {''number'', ''boolean'', ''string''}"
  shows "expandValueRegex (''${'' @ n @ '':'' @ T @ ''}'') = None"
proof -
  let ?k = "\<lambda>n rest. if n = [] then None
               else match_hasFormat
                      \<lparr>name = n, hasFormat = [], format = [], hasFallback = [], fallback = []\<rparr> rest"
  have "star (\<lambda>c. c \<noteq> CHR '':'') ?k [] (n @ CHR '':'' # T @ ''}'') = None"
  proof (rule star_None)
    fix m r
    assume eq: "n @ CHR '':'' # T @ ''}'' = m @ r" and m: "list_all (\<lambda>c. c \<noteq> CHR '':'') m"
    from m have nc: "CHR '':'' \<notin> set m" by (auto simp: list_all_iff)
    from eq consider us where "n = m @ us" "us @ CHR '':'' # T @ ''}'' = r"
      | us where "n @ us = m" "CHR '':'' # T @ ''}'' = us @ r"
      by (auto simp: append_eq_append_conv2)
    then have "m = n \<and> r = CHR '':'' # T @ ''}'' \<or> (\<exists>u us. r = u # us @ CHR '':'' # T @ ''}'' \<and> u \<noteq> CHR '':'')"
    proof cases
      case 1
      then show ?thesis using assms(1) by (cases us) auto
    next
      case 2
      then show ?thesis using nc by (cases us) auto
    qed
    then show "?k ([] @ m) r = None"
      using match_hasFormat_bad_tag[OF assms(2,3)] by (auto intro: match_hasFormat_no_colon)
  qed
  then show ?thesis
    unfolding expandValueRegex_def using literal_append[of "''${''" "n @ '':'' @ T @ ''}''"] by simp
qed

lemma match_hasFallback_format: "match_hasFallback p t = Some q \<Longrightarrow> format q = format p \<and> name q = name p"
  by (auto dest!: match_hasFallback_SomeD)

lemma expandValueRegex_formats:
  assumes "expandValueRegex str = Some p"
  shows "format p \<in> {[], ''number'', ''boolean'', ''string''}"
proof -
  from assms obtain body where "literal ''${'' str = Some body"
    and st: "star (\<lambda>c. c \<noteq> CHR '':'')
            (\<lambda>n rest.
               if n = [] then None
               else match_hasFormat
                      \<lparr>name = n, hasFormat = [], format = [], hasFallback = [], fallback = []\<rparr> rest)
            [] body = Some p"
    by (auto simp: expandValueRegex_def split: option.splits)
  from star_SomeD[OF st] obtain m r where
    "match_hasFormat \<lparr>name = [] @ m, hasFormat = [], format = [], hasFallback = [], fallback = []\<rparr> r = Some p"
    by (auto split: if_splits)
  from match_hasFormat_SomeD[OF this] show ?thesis
    by (auto dest!: match_hasFallback_format)
qed


subsection \<open>The \<open>switch\<close> of \<open>expandValue\<close> and the message of \<open>fmt.Errorf\<close>\<close>

lemma switch_format_empty: "switch_format lib [] v = Inr (EString v)"
  by (simp add: switch_format_def)

lemma switch_format_string: "switch_format lib ''string'' v = Inr (EString v)"
  by (simp add: switch_format_def)

lemma switch_format_number:
  "switch_format lib ''number'' v =
     (case Atoi v of
        Some formatted \<Rightarrow> Inr (EInt formatted)
      | None \<Rightarrow>
          (case ParseFloat lib v of
             Some formatted \<Rightarrow> Inr (EFloat64 formatted)
           | None \<Rightarrow> Inl (InvalidNumber v)))"
  by (simp add: switch_format_def)

lemma switch_format_boolean:
  "switch_format lib ''boolean'' v =
     (if v = ''0'' then Inr (EBool False)
      else if v = ''1'' then Inr (EBool True)
      else if v = ''false'' then Inr (EBool False)
      else if v = ''true'' then Inr (EBool True)
      else if v = ''no'' then Inr (EBool False)
      else if v = ''yes'' then Inr (EBool True)
      else Inl (InvalidBoolean v))"
  by (simp add: switch_format_def)

lemma switch_format_supported:
  assumes "fmt \<in> {[], ''number'', ''boolean'', ''string''}"
  shows "switch_format lib fmt v \<noteq> Inl (UnsupportedFormat f)"
proof -
  from assms consider "fmt = []" | "fmt = ''number''" | "fmt = ''boolean''" | "fmt = ''string''"
    by blast
  then show ?thesis
  proof cases
    case 1
    then show ?thesis by (simp only: switch_format_empty) simp
  next
    case 2
    then show ?thesis by (simp only: switch_format_number) (simp split: option.splits)
  next
    case 3
    then show ?thesis by (simp only: switch_format_boolean) (simp split: if_splits)
  next
    case 4
    then show ?thesis by (simp only: switch_format_string) simp
  qed
qed

lemma expandValue_never_unsupported:
  "fst (expandValue lib str values s) \<noteq> Inl (UnsupportedFormat f)"
proof (cases "expandValueRegex str")
  case None
  then show ?thesis by (simp add: expandValue_def)
next
  case (Some p)
  have sf: "\<And>v. switch_format lib (format p) v \<noteq> Inl (UnsupportedFormat f)"
    by (rule switch_format_supported) (rule expandValueRegex_formats[OF Some])
  obtain val err s' where v: "values (name p) s = ((val, err), s')"
    by (metis prod.exhaust)
  show ?thesis
    using Some v sf by (cases err; cases val) (simp_all add: expandValue_def)
qed

lemma Errorf_plain: "CHR ''%'' \<notin> set m \<Longrightarrow> Errorf m = m"
  by (induction m) auto

section \<open>Facts about \<open>expandValue\<close> and the whole-string path\<close>

lemma expandValue_malformed:
  "expandValueRegex str = None \<Longrightarrow> expandValue lib str lookup s = (Inl (MalformedPlaceholder str), s)"
  by (simp add: expandValue_def)

lemma expandValue_found:
  "expandValueRegex str = Some p \<Longrightarrow> lookup (name p) s = ((Some v, None), s') \<Longrightarrow>
     expandValue lib str lookup s = (switch_format lib (format p) v, s')"
  by (simp add: expandValue_def)

lemma expandValue_absent:
  "expandValueRegex str = Some p \<Longrightarrow> lookup (name p) s = ((None, None), s') \<Longrightarrow>
     expandValue lib str lookup s = (Inr (EString str), s')"
  by (simp add: expandValue_def)



lemma Expand_single_ok:
  "singleRegex current \<Longrightarrow> expandValue lib current lookup s = (Inr e, s') \<Longrightarrow>
     Expand lib (VString current) lookup s = ((to_vtree e, None), s')"
  by (simp add: Expand_def)

lemma Expand_single_error:
  "singleRegex current \<Longrightarrow> expandValue lib current lookup s = (Inl err, s') \<Longrightarrow>
     Expand lib (VString current) lookup s = ((VString current, Some (Errorf (Error err))), s')"
  by (simp add: Expand_def)

lemma recursion_single_error:
  "singleRegex current \<Longrightarrow> expandValue lib current lookup s = (Inl err, s') \<Longrightarrow>
     recursion lib lookup (VString current) s = ((VString current, [err]), s')"
  by simp

lemma Expand_not_single_string:
  "\<not> singleRegex current \<Longrightarrow> \<exists>t. fst (fst (Expand lib (VString current) lookup s)) = VString t"
  by (auto simp: Expand_def split: prod.splits)

lemma Atoi_42: "Atoi ''42'' = Some 42"
  by (simp add: Atoi_def is_digit_def digit_val_def)

lemma Atoi_42_5: "Atoi ''42.5'' = None"
  by (simp add: Atoi_def is_digit_def digit_val_def)


section \<open>A string that is one placeholder\<close>

text \<open>
  Claim C1. For every lookup and every string that is exactly one placeholder (it matches
  \<open>singleRegex\<close>), \<open>Expand\<close> returns the value \<open>expandValue\<close> gives for the placeholder, with its
  type. With the format \<open>number\<close>, the resolved text \<open>42\<close> gives the int 42, the resolved text
  \<open>42.5\<close> gives the float64 that \<open>ParseFloat\<close> reads from it, and a text that neither \<open>Atoi\<close> nor
  \<open>ParseFloat\<close> reads gives the error \<open>InvalidNumber\<close> and leaves the placeholder as the
  result. A string input gives an output that is no string only on this path.
\<close>

theorem whole_string_placeholder:
  "(singleRegex current \<and> expandValue lib current lookup s = (Inr e, s')
      \<longrightarrow> Expand lib (VString current :: ('f, 'o) vtree) lookup s
            = ((to_vtree e, None), s'))
   \<and> (singleRegex current \<and> expandValueRegex current = Some p \<and> format p = ''number''
        \<and> lookup (name p) s = ((Some v, None), s')
      \<longrightarrow> (v = ''42'' \<longrightarrow> Expand lib (VString current :: ('f, 'o) vtree) lookup s = ((VInt 42, None), s'))
        \<and> (v = ''42.5'' \<and> ParseFloat lib v = Some f
              \<longrightarrow> Expand lib (VString current :: ('f, 'o) vtree) lookup s = ((VFloat64 f, None), s'))
        \<and> (Atoi v = None \<and> ParseFloat lib v = None
              \<longrightarrow> recursion lib lookup (VString current :: ('f, 'o) vtree) s = ((VString current, [InvalidNumber v]), s')
                \<and> Expand lib (VString current :: ('f, 'o) vtree) lookup s
                    = ((VString current, Some (Errorf (v @ '' is not a valid number''))), s')))
   \<and> ((\<forall>t. fst (fst (Expand lib (VString current :: ('f, 'o) vtree) lookup s)) \<noteq> VString t) \<longrightarrow> singleRegex current)"
proof (intro conjI impI)
  assume "singleRegex current \<and> expandValue lib current lookup s = (Inr e, s')"
  then show "Expand lib (VString current) lookup s = ((to_vtree e, None), s')"
    by (simp add: Expand_single_ok)
next
  assume a: "singleRegex current \<and> expandValueRegex current = Some p \<and> format p = ''number''
        \<and> lookup (name p) s = ((Some v, None), s')"
  then have ev: "expandValue lib current lookup s = (switch_format lib ''number'' v, s')"
    using expandValue_found[of current p lookup s v s' lib] by simp
  {
    assume "v = ''42''"
    with ev have "expandValue lib current lookup s = (Inr (EInt 42), s')"
      by (simp add: switch_format_number Atoi_42)
    with a show "Expand lib (VString current) lookup s = ((VInt 42, None), s')"
      using Expand_single_ok[of current lib lookup s "EInt 42" s'] by simp
  }
  {
    assume "v = ''42.5'' \<and> ParseFloat lib v = Some f"
    with ev have "expandValue lib current lookup s = (Inr (EFloat64 f), s')"
      by (auto simp: switch_format_number Atoi_42_5)
    with a show "Expand lib (VString current) lookup s = ((VFloat64 f, None), s')"
      using Expand_single_ok[of current lib lookup s "EFloat64 f" s'] by simp
  }
  {
    assume "Atoi v = None \<and> ParseFloat lib v = None"
    with ev have e: "expandValue lib current lookup s = (Inl (InvalidNumber v), s')"
      by (simp add: switch_format_number)
    with a show "recursion lib lookup (VString current) s = ((VString current, [InvalidNumber v]), s')"
      by (simp add: recursion_single_error)
    from a e show "Expand lib (VString current) lookup s
                    = ((VString current, Some (Errorf (v @ '' is not a valid number''))), s')"
      using Expand_single_error[of current lib lookup s "InvalidNumber v" s'] by simp
  }
next
  assume "\<forall>t. fst (fst (Expand lib (VString current) lookup s)) \<noteq> VString t"
  then show "singleRegex current"
    using Expand_not_single_string[of current lib lookup s] by blast
qed

theorem whole_string_placeholder_witness:
  "Expand example_float64 (VString ''${N:number}'') (counting_lookup [(''N'', ''42'')]) 0
     = ((VInt 42 :: (string, unit) vtree, None), 1)
   \<and> Expand example_float64 (VString ''${N:number}'') (counting_lookup [(''N'', ''42.5'')]) 0
     = ((VFloat64 ''42.5'' :: (string, unit) vtree, None), 1)
   \<and> Expand example_float64 (VString ''${N:number}'') (counting_lookup [(''N'', ''4x'')]) 0
     = ((VString ''${N:number}'' :: (string, unit) vtree, Some ''4x is not a valid number''), 1)
   \<and> singleRegex ''${N:number}''"
proof -
  let ?p = "\<lparr>name = ''N'', hasFormat = '':number'', format = ''number'', hasFallback = [], fallback = []\<rparr>"
  have sr: "singleRegex ''${N:number}''" by code_simp
  have rx: "expandValueRegex ''${N:number}'' = Some ?p" by code_simp
  have l1: "counting_lookup [(''N'', ''42'')] ''N'' 0 = ((Some ''42'', None), 1)" by code_simp
  have l2: "counting_lookup [(''N'', ''42.5'')] ''N'' 0 = ((Some ''42.5'', None), 1)" by code_simp
  have l3: "counting_lookup [(''N'', ''4x'')] ''N'' 0 = ((Some ''4x'', None), 1)" by code_simp
  have pf: "ParseFloat example_float64 ''42.5'' = Some ''42.5''" by code_simp
  have n3: "Atoi ''4x'' = None" "ParseFloat example_float64 ''4x'' = None" by code_simp+
  have e3: "Errorf ''4x is not a valid number'' = ''4x is not a valid number''" by code_simp
  have a: "Expand example_float64 (VString ''${N:number}'') (counting_lookup [(''N'', ''42'')]) 0
     = ((VInt 42 :: (string, unit) vtree, None), 1)"
    using whole_string_placeholder[where 'o = unit and current = "''${N:number}''" and lib = example_float64
        and lookup = "counting_lookup [(''N'', ''42'')]" and s = 0 and p = ?p and v = "''42''" and s' = 1
        and e = "EInt 42"]
      sr rx l1 by simp
  have b: "Expand example_float64 (VString ''${N:number}'') (counting_lookup [(''N'', ''42.5'')]) 0
     = ((VFloat64 ''42.5'' :: (string, unit) vtree, None), 1)"
    using whole_string_placeholder[where 'o = unit and current = "''${N:number}''" and lib = example_float64
        and lookup = "counting_lookup [(''N'', ''42.5'')]" and s = 0 and p = ?p and v = "''42.5''"
        and s' = 1 and f = "''42.5''"
        and e = "EInt 42"]
      sr rx l2 pf by simp
  have c: "Expand example_float64 (VString ''${N:number}'') (counting_lookup [(''N'', ''4x'')]) 0
     = ((VString ''${N:number}'' :: (string, unit) vtree, Some ''4x is not a valid number''), 1)"
    using whole_string_placeholder[where 'o = unit and current = "''${N:number}''" and lib = example_float64
        and lookup = "counting_lookup [(''N'', ''4x'')]" and s = 0 and p = ?p and v = "''4x''" and s' = 1
        and e = "EInt 42"]
      sr rx l3 n3 e3 by simp
  from a b c sr show ?thesis by blast
qed

section \<open>Facts about the scan of a string\<close>

lemma singleRegex_dollar: "singleRegex s \<Longrightarrow> s \<noteq> [] \<and> hd s = CHR ''$''"
  by (auto simp: singleRegex_iff)

lemma not_singleRegex_suffix:
  assumes "post \<noteq> []" "CHR ''}'' \<notin> set body"
  shows "\<not> singleRegex (''${'' @ body @ ''}'' @ post)"
proof
  assume "singleRegex (''${'' @ body @ ''}'' @ post)"
  then obtain m where m: "''${'' @ body @ ''}'' @ post = ''${'' @ m @ ''}''" "CHR ''}'' \<notin> set m"
    by (auto simp: singleRegex_iff)
  then have "butlast (body @ CHR ''}'' # post) = butlast (m @ ''}'')" by simp
  with assms(1) have "m = body @ CHR ''}'' # butlast post" by (simp add: butlast_append)
  with m(2) show False by simp
qed

lemma replace_match_escaped:
  "replace_match lib lookup (backslash # str) (errs, s) = (str, (errs, s))"
  by (simp add: replace_match_def HasPrefix_def)

lemma replace_match_placeholder:
  "hd str \<noteq> backslash \<Longrightarrow> str \<noteq> [] \<Longrightarrow>
     replace_match lib lookup str (errs, s) =
       (case expandValue lib str lookup s of
          (Inl err, s') \<Rightarrow> (str, (errs @ [err], s'))
        | (Inr expanded, s') \<Rightarrow> (Sprintf_v lib expanded, (errs, s')))"
  by (cases str) (auto simp: replace_match_def HasPrefix_def)

lemma Expand_escaped:
  assumes "CHR ''$'' \<notin> set pre" "CHR ''$'' \<notin> set post" "body \<noteq> []" "CHR ''}'' \<notin> set body"
  shows "Expand lib (VString (pre @ backslash # ''${'' @ body @ ''}'' @ post)) lookup s
           = ((VString (pre @ ''${'' @ body @ ''}'' @ post), None), s)"
proof -
  let ?in = "pre @ backslash # ''${'' @ body @ ''}'' @ post"
  have "?in \<noteq> [] \<and> hd ?in \<noteq> CHR ''$''"
    using assms(1) by (cases pre) (auto simp: backslash_def)
  then have ns: "\<not> singleRegex ?in" using singleRegex_dollar[of ?in] by blast
  have "ReplaceAllStringFunc ?in (replace_match lib lookup) ([], s)
          = (pre @ ''${'' @ body @ ''}'' @ post, ([], s))"
    using ReplaceAll_escaped[OF assms, of "replace_match lib lookup" "([], s)"]
    by (simp add: replace_match_escaped)
  with ns show ?thesis by (simp add: Expand_def)
qed


lemma Expand_embedded:
  assumes "CHR ''$'' \<notin> set pre" "pre = [] \<or> last pre \<noteq> backslash" "CHR ''$'' \<notin> set post"
    "body \<noteq> []" "CHR ''}'' \<notin> set body" "pre @ post \<noteq> []"
  shows "Expand lib (VString (pre @ ''${'' @ body @ ''}'' @ post)) lookup s =
           (case expandValue lib (''${'' @ body @ ''}'') lookup s of
              (Inl err, s') \<Rightarrow>
                ((VString (pre @ ''${'' @ body @ ''}'' @ post), Some (Errorf (Error err))), s')
            | (Inr expanded, s') \<Rightarrow> ((VString (pre @ Sprintf_v lib expanded @ post), None), s'))"
proof -
  let ?tok = "''${'' @ body @ ''}''"
  let ?in = "pre @ ?tok @ post"
  have ns: "\<not> singleRegex ?in"
  proof (cases pre)
    case Nil
    with assms(6) have "post \<noteq> []" by simp
    from not_singleRegex_suffix[OF this assms(5)] Nil show ?thesis by simp
  next
    case (Cons c cs)
    with assms(1) have "?in \<noteq> [] \<and> hd ?in \<noteq> CHR ''$''" by auto
    then show ?thesis using singleRegex_dollar[of ?in] by blast
  qed
  have ra: "ReplaceAllStringFunc ?in (replace_match lib lookup) ([], s)
          = (pre @ fst (replace_match lib lookup ?tok ([], s)) @ post,
             snd (replace_match lib lookup ?tok ([], s)))"
    using ReplaceAll_token[OF assms(1,2,3,4,5), of "replace_match lib lookup" "([], s)"] by simp
  have rm: "replace_match lib lookup ?tok ([], s) =
       (case expandValue lib ?tok lookup s of
          (Inl err, s') \<Rightarrow> (?tok, ([] @ [err], s'))
        | (Inr expanded, s') \<Rightarrow> (Sprintf_v lib expanded, ([], s')))"
    by (rule replace_match_placeholder) (simp_all add: backslash_def)
  obtain r s' where ev: "expandValue lib ?tok lookup s = (r, s')" by (metis prod.exhaust)
  show ?thesis
  proof (cases r)
    case (Inl err)
    with ev rm have "replace_match lib lookup ?tok ([], s) = (?tok, ([err], s'))" by simp
    with ra have "ReplaceAllStringFunc ?in (replace_match lib lookup) ([], s) = (?in, ([err], s'))"
      by simp
    with ns ev Inl show ?thesis by (simp add: Expand_def)
  next
    case (Inr expanded)
    with ev rm have "replace_match lib lookup ?tok ([], s) = (Sprintf_v lib expanded, ([], s'))" by simp
    with ra have "ReplaceAllStringFunc ?in (replace_match lib lookup) ([], s)
                    = (pre @ Sprintf_v lib expanded @ post, ([], s'))"
      by simp
    with ns ev Inr show ?thesis by (simp add: Expand_def)
  qed
qed


section \<open>An escaped placeholder\<close>

text \<open>
  Claim C2. For every lookup, also one that would fail on the name, expanding a string in
  which a placeholder follows a backslash (the text around them holding no dollar sign)
  removes that one backslash, leaves the text of the placeholder as it is, returns no error
  and does not call the lookup: the state of the lookup is the one it started with. The
  string of the five characters backslash, dollar, brace, X, brace gives the four characters
  after the backslash; with two backslashes the first one stays as ordinary text.
\<close>

theorem escaped_placeholder:
  "(CHR ''$'' \<notin> set pre \<and> CHR ''$'' \<notin> set post \<and> body \<noteq> [] \<and> CHR ''}'' \<notin> set body
      \<longrightarrow> Expand lib (VString (pre @ backslash # ''${'' @ body @ ''}'' @ post) :: ('f, 'o) vtree) lookup s
            = ((VString (pre @ ''${'' @ body @ ''}'' @ post), None), s))
   \<and> Expand lib (VString (backslash # ''${X}'') :: ('f, 'o) vtree) lookup s
        = ((VString ''${X}'', None), s)
   \<and> length (backslash # ''${X}'') = 5 \<and> length ''${X}'' = 4
   \<and> Expand lib (VString (backslash # backslash # ''${X}'') :: ('f, 'o) vtree) lookup s
        = ((VString (backslash # ''${X}''), None), s)"
proof (intro conjI impI)
  assume "CHR ''$'' \<notin> set pre \<and> CHR ''$'' \<notin> set post \<and> body \<noteq> [] \<and> CHR ''}'' \<notin> set body"
  then show "Expand lib (VString (pre @ backslash # ''${'' @ body @ ''}'' @ post) :: ('f, 'o) vtree) lookup s
            = ((VString (pre @ ''${'' @ body @ ''}'' @ post), None), s)"
    using Expand_escaped[of pre post body lib lookup s] by simp
next
  show "Expand lib (VString (backslash # ''${X}'') :: ('f, 'o) vtree) lookup s = ((VString ''${X}'', None), s)"
    using Expand_escaped[of "[]" "[]" "''X''" lib lookup s] by simp
next
  show "Expand lib (VString (backslash # backslash # ''${X}'') :: ('f, 'o) vtree) lookup s
        = ((VString (backslash # ''${X}''), None), s)"
    using Expand_escaped[of "[backslash]" "[]" "''X''" lib lookup s] by (simp add: backslash_def)
qed simp_all

theorem escaped_placeholder_witness:
  "Expand example_float64 (VString (''a'' @ backslash # ''${'' @ ''UNSET'' @ ''}'' @ ''b'') :: (string, unit) vtree)
      (counting_lookup []) 0
     = ((VString ''a${UNSET}b'', None), 0)"
  using escaped_placeholder[where 'o = unit and pre = "''a''" and post = "''b''" and body = "''UNSET''"
      and lib = example_float64 and lookup = "counting_lookup []" and s = 0]
  by simp

section \<open>A name the lookup leaves out\<close>

text \<open>
  Claim C7. When the lookup returns a nil pointer and a nil error for the name of a
  placeholder, \<open>expandValue\<close> returns the text of the placeholder itself and no error, whatever
  the format and the fallback are; so \<open>Expand\<close> leaves the placeholder in the output unchanged
  and reports no error, where the placeholder is the whole string and where it stands in
  other text.
\<close>

theorem intentionally_absent:
  "(expandValueRegex str = Some p \<and> lookup (name p) s = ((None, None), s')
      \<longrightarrow> expandValue lib str lookup s = (Inr (EString str), s'))
   \<and> (singleRegex str \<and> expandValueRegex str = Some p \<and> lookup (name p) s = ((None, None), s')
      \<longrightarrow> Expand lib (VString str :: ('f, 'o) vtree) lookup s = ((VString str, None), s'))
   \<and> (CHR ''$'' \<notin> set pre \<and> (pre = [] \<or> last pre \<noteq> backslash) \<and> CHR ''$'' \<notin> set post
        \<and> pre @ post \<noteq> [] \<and> body \<noteq> [] \<and> CHR ''}'' \<notin> set body
        \<and> expandValueRegex (''${'' @ body @ ''}'') = Some q \<and> lookup (name q) s = ((None, None), s')
      \<longrightarrow> Expand lib (VString (pre @ ''${'' @ body @ ''}'' @ post) :: ('f, 'o) vtree) lookup s
            = ((VString (pre @ ''${'' @ body @ ''}'' @ post), None), s'))"
proof (intro conjI impI)
  assume "expandValueRegex str = Some p \<and> lookup (name p) s = ((None, None), s')"
  then show "expandValue lib str lookup s = (Inr (EString str), s')"
    by (simp add: expandValue_absent)
next
  assume a: "singleRegex str \<and> expandValueRegex str = Some p \<and> lookup (name p) s = ((None, None), s')"
  then have "expandValue lib str lookup s = (Inr (EString str), s')"
    by (simp add: expandValue_absent)
  with a show "Expand lib (VString str :: ('f, 'o) vtree) lookup s = ((VString str, None), s')"
    using Expand_single_ok[of str lib lookup s "EString str" s'] by simp
next
  assume a: "CHR ''$'' \<notin> set pre \<and> (pre = [] \<or> last pre \<noteq> backslash) \<and> CHR ''$'' \<notin> set post
        \<and> pre @ post \<noteq> [] \<and> body \<noteq> [] \<and> CHR ''}'' \<notin> set body
        \<and> expandValueRegex (''${'' @ body @ ''}'') = Some q \<and> lookup (name q) s = ((None, None), s')"
  then have ev: "expandValue lib (''${'' @ body @ ''}'') lookup s = (Inr (EString (''${'' @ body @ ''}'')), s')"
    using expandValue_absent[of "''${'' @ body @ ''}''" q lookup s s' lib] by simp
  have "Expand lib (VString (pre @ ''${'' @ body @ ''}'' @ post) :: ('f, 'o) vtree) lookup s =
           (case expandValue lib (''${'' @ body @ ''}'') lookup s of
              (Inl err, s') \<Rightarrow>
                ((VString (pre @ ''${'' @ body @ ''}'' @ post), Some (Errorf (Error err))), s')
            | (Inr expanded, s') \<Rightarrow> ((VString (pre @ Sprintf_v lib expanded @ post), None), s'))"
    using a by (intro Expand_embedded) simp_all
  with ev show "Expand lib (VString (pre @ ''${'' @ body @ ''}'' @ post) :: ('f, 'o) vtree) lookup s
            = ((VString (pre @ ''${'' @ body @ ''}'' @ post), None), s')"
    by simp
qed

theorem intentionally_absent_witness:
  "Expand example_float64 (VString ''${KEEP:number}'' :: (string, unit) vtree) skipping_lookup 0
     = ((VString ''${KEEP:number}'', None), 1)
   \<and> Expand example_float64 (VString ''a ${KEEP} b'' :: (string, unit) vtree) skipping_lookup 0
     = ((VString ''a ${KEEP} b'', None), 1)
   \<and> expandValue example_float64 ''${KEEP:-x}'' skipping_lookup 0 = (Inr (EString ''${KEEP:-x}''), 1)"
proof -
  have s1: "singleRegex ''${KEEP:number}''" by code_simp
  have r1: "expandValueRegex ''${KEEP:number}'' = Some \<lparr>name = ''KEEP'', hasFormat = '':number'',
      format = ''number'', hasFallback = [], fallback = []\<rparr>" by code_simp
  have r2: "expandValueRegex ''${KEEP}'' = Some \<lparr>name = ''KEEP'', hasFormat = [],
      format = [], hasFallback = [], fallback = []\<rparr>" by code_simp
  have r3: "expandValueRegex ''${KEEP:-x}'' = Some \<lparr>name = ''KEEP'', hasFormat = [],
      format = [], hasFallback = '':-x'', fallback = ''x''\<rparr>" by code_simp
  have lk: "skipping_lookup ''KEEP'' 0 = ((None, None), 1)" by code_simp
  have a: "Expand example_float64 (VString ''${KEEP:number}'' :: (string, unit) vtree) skipping_lookup 0
     = ((VString ''${KEEP:number}'', None), 1)"
    using intentionally_absent[where 'o = unit and str = "''${KEEP:number}''" and lib = example_float64
        and lookup = skipping_lookup and s = 0 and s' = 1
        and p = "\<lparr>name = ''KEEP'', hasFormat = '':number'', format = ''number'', hasFallback = [], fallback = []\<rparr>"]
      s1 r1 lk by simp
  have b: "Expand example_float64 (VString ''a ${KEEP} b'' :: (string, unit) vtree) skipping_lookup 0
     = ((VString ''a ${KEEP} b'', None), 1)"
    using intentionally_absent[where 'o = unit and pre = "''a ''" and post = "'' b''" and body = "''KEEP''"
        and lib = example_float64 and lookup = skipping_lookup and s = 0 and s' = 1
        and q = "\<lparr>name = ''KEEP'', hasFormat = [], format = [], hasFallback = [], fallback = []\<rparr>"]
      r2 lk by (simp add: backslash_def)
  have c: "expandValue example_float64 ''${KEEP:-x}'' skipping_lookup 0 = (Inr (EString ''${KEEP:-x}''), 1)"
    using intentionally_absent[where 'o = unit and str = "''${KEEP:-x}''" and lib = example_float64
        and lookup = skipping_lookup and s = 0 and s' = 1 and pre = "[]" and post = "[]" and body = "[]"
        and q = "\<lparr>name = [], hasFormat = [], format = [], hasFallback = [], fallback = []\<rparr>"
        and p = "\<lparr>name = ''KEEP'', hasFormat = [], format = [], hasFallback = '':-x'', fallback = ''x''\<rparr>"]
      r3 lk by simp
  from a b c show ?thesis by blast
qed

section \<open>The fallback\<close>

lemma singleRegex_token: "m \<noteq> [] \<Longrightarrow> CHR ''}'' \<notin> set m \<Longrightarrow> singleRegex (''${'' @ m @ ''}'')"
  by (auto simp: singleRegex_iff)






section \<open>A missing name and no fallback\<close>




section \<open>The format \<open>boolean\<close>\<close>

text \<open>
  Claim C8. For a string that is one placeholder with the format \<open>boolean\<close>, the resolved
  texts \<open>0\<close>, \<open>no\<close> and \<open>false\<close> give the bool false and \<open>1\<close>, \<open>yes\<close> and \<open>true\<close> give the bool
  true; the comparison is by equality of the texts, so it tells upper case from lower case.
  Every other resolved text gives the error \<open>InvalidBoolean\<close> with that text and leaves the
  placeholder as the result; for the text \<open>42\<close> the message of the error that \<open>Expand\<close> returns
  is \<open>42 is not a valid boolean\<close>.
\<close>

theorem boolean_format:
  "(singleRegex current \<and> expandValueRegex current = Some p \<and> format p = ''boolean''
       \<and> lookup (name p) s = ((Some v, None), s')
      \<longrightarrow> (v \<in> {''0'', ''no'', ''false''}
            \<longrightarrow> Expand lib (VString current :: ('f, 'o) vtree) lookup s = ((VBool False, None), s'))
        \<and> (v \<in> {''1'', ''yes'', ''true''}
            \<longrightarrow> Expand lib (VString current :: ('f, 'o) vtree) lookup s = ((VBool True, None), s'))
        \<and> (v \<notin> {''0'', ''1'', ''false'', ''true'', ''no'', ''yes''}
            \<longrightarrow> recursion lib lookup (VString current :: ('f, 'o) vtree) s
                  = ((VString current, [InvalidBoolean v]), s')
              \<and> Expand lib (VString current :: ('f, 'o) vtree) lookup s
                  = ((VString current, Some (Errorf (v @ '' is not a valid boolean''))), s'))
        \<and> (v = ''42''
            \<longrightarrow> Expand lib (VString current :: ('f, 'o) vtree) lookup s
                  = ((VString current, Some ''42 is not a valid boolean''), s')))
   \<and> Contains ''42 is not a valid boolean'' ''42 is not a valid boolean''"
proof (intro conjI impI)
  assume a: "singleRegex current \<and> expandValueRegex current = Some p \<and> format p = ''boolean''
       \<and> lookup (name p) s = ((Some v, None), s')"
  then have sr: "singleRegex current" by simp
  from a have ev: "expandValue lib current lookup s = (switch_format lib ''boolean'' v, s')"
    using expandValue_found[of current p lookup s v s' lib] by simp
  {
    assume "v \<in> {''0'', ''no'', ''false''}"
    then have "switch_format lib ''boolean'' v = Inr (EBool False)"
      by (auto simp only: switch_format_boolean) simp_all
    with ev have "expandValue lib current lookup s = (Inr (EBool False), s')" by simp
    from Expand_single_ok[OF sr this]
    show "Expand lib (VString current :: ('f, 'o) vtree) lookup s = ((VBool False, None), s')" by simp
  }
  {
    assume "v \<in> {''1'', ''yes'', ''true''}"
    then have "switch_format lib ''boolean'' v = Inr (EBool True)"
      by (auto simp only: switch_format_boolean) simp_all
    with ev have "expandValue lib current lookup s = (Inr (EBool True), s')" by simp
    from Expand_single_ok[OF sr this]
    show "Expand lib (VString current :: ('f, 'o) vtree) lookup s = ((VBool True, None), s')" by simp
  }
  {
    assume "v \<notin> {''0'', ''1'', ''false'', ''true'', ''no'', ''yes''}"
    then have "switch_format lib ''boolean'' v = Inl (InvalidBoolean v)"
      by (simp only: switch_format_boolean) simp
    with ev have e: "expandValue lib current lookup s = (Inl (InvalidBoolean v), s')" by simp
    from recursion_single_error[OF sr e]
    show "recursion lib lookup (VString current :: ('f, 'o) vtree) s
                  = ((VString current, [InvalidBoolean v]), s')" .
    from Expand_single_error[OF sr e]
    show "Expand lib (VString current :: ('f, 'o) vtree) lookup s
                  = ((VString current, Some (Errorf (v @ '' is not a valid boolean''))), s')" by simp
  }
  {
    assume v: "v = ''42''"
    have "switch_format lib ''boolean'' ''42'' = Inl (InvalidBoolean ''42'')"
      by (simp only: switch_format_boolean) simp
    with ev v have e: "expandValue lib current lookup s = (Inl (InvalidBoolean ''42''), s')" by simp
    have m: "Errorf ''42 is not a valid boolean'' = ''42 is not a valid boolean''" by code_simp
    from Expand_single_error[OF sr e] m
    show "Expand lib (VString current :: ('f, 'o) vtree) lookup s
                  = ((VString current, Some ''42 is not a valid boolean''), s')" by simp
  }
next
  show "Contains ''42 is not a valid boolean'' ''42 is not a valid boolean''" by code_simp
qed

theorem boolean_format_witness:
  "Expand example_float64 (VString ''${B:boolean}'' :: (string, unit) vtree) (counting_lookup [(''B'', ''yes'')]) 0
     = ((VBool True, None), 1)
   \<and> Expand example_float64 (VString ''${B:boolean}'' :: (string, unit) vtree) (counting_lookup [(''B'', ''0'')]) 0
     = ((VBool False, None), 1)
   \<and> Expand example_float64 (VString ''${B:boolean}'' :: (string, unit) vtree) (counting_lookup [(''B'', ''Yes'')]) 0
     = ((VString ''${B:boolean}'', Some ''Yes is not a valid boolean''), 1)
   \<and> Expand example_float64 (VString ''${B:boolean}'' :: (string, unit) vtree) (counting_lookup [(''B'', ''42'')]) 0
     = ((VString ''${B:boolean}'', Some ''42 is not a valid boolean''), 1)"
proof -
  let ?p = "\<lparr>name = ''B'', hasFormat = '':boolean'', format = ''boolean'', hasFallback = [], fallback = []\<rparr>"
  have sr: "singleRegex ''${B:boolean}''" by code_simp
  have rx: "expandValueRegex ''${B:boolean}'' = Some ?p" by code_simp
  have l1: "counting_lookup [(''B'', ''yes'')] ''B'' 0 = ((Some ''yes'', None), 1)" by code_simp
  have l2: "counting_lookup [(''B'', ''0'')] ''B'' 0 = ((Some ''0'', None), 1)" by code_simp
  have l3: "counting_lookup [(''B'', ''Yes'')] ''B'' 0 = ((Some ''Yes'', None), 1)" by code_simp
  have l4: "counting_lookup [(''B'', ''42'')] ''B'' 0 = ((Some ''42'', None), 1)" by code_simp
  have e3: "Errorf ''Yes is not a valid boolean'' = ''Yes is not a valid boolean''" by code_simp
  have a: "Expand example_float64 (VString ''${B:boolean}'' :: (string, unit) vtree) (counting_lookup [(''B'', ''yes'')]) 0
     = ((VBool True, None), 1)"
    using boolean_format[where 'o = unit and current = "''${B:boolean}''" and p = ?p and lib = example_float64
        and lookup = "counting_lookup [(''B'', ''yes'')]" and s = 0 and s' = 1 and v = "''yes''"]
      sr rx l1 by simp
  have b: "Expand example_float64 (VString ''${B:boolean}'' :: (string, unit) vtree) (counting_lookup [(''B'', ''0'')]) 0
     = ((VBool False, None), 1)"
    using boolean_format[where 'o = unit and current = "''${B:boolean}''" and p = ?p and lib = example_float64
        and lookup = "counting_lookup [(''B'', ''0'')]" and s = 0 and s' = 1 and v = "''0''"]
      sr rx l2 by simp
  have c: "Expand example_float64 (VString ''${B:boolean}'' :: (string, unit) vtree) (counting_lookup [(''B'', ''Yes'')]) 0
     = ((VString ''${B:boolean}'', Some ''Yes is not a valid boolean''), 1)"
    using boolean_format[where 'o = unit and current = "''${B:boolean}''" and p = ?p and lib = example_float64
        and lookup = "counting_lookup [(''B'', ''Yes'')]" and s = 0 and s' = 1 and v = "''Yes''"]
      sr rx l3 e3 by simp
  have d: "Expand example_float64 (VString ''${B:boolean}'' :: (string, unit) vtree) (counting_lookup [(''B'', ''42'')]) 0
     = ((VString ''${B:boolean}'', Some ''42 is not a valid boolean''), 1)"
    using boolean_format[where 'o = unit and current = "''${B:boolean}''" and p = ?p and lib = example_float64
        and lookup = "counting_lookup [(''B'', ''42'')]" and s = 0 and s' = 1 and v = "''42''"]
      sr rx l4 by simp
  from a b c d show ?thesis by blast
qed

section \<open>A format that is not one of the three\<close>

text \<open>
  Claim C3, as stated: a placeholder whose format tag is present and is not \<open>number\<close>,
  \<open>boolean\<close> or \<open>string\<close> records the error \<open>UnsupportedFormat\<close>. The pattern of \<open>expandValue\<close>
  admits the three tags only, so \<open>${X:foo}\<close> does not match it and the error recorded is the one
  of a placeholder that could not be parsed.
\<close>

theorem unsupported_format_counterexample:
  "format_tag ''foo'' = ''foo''
   \<and> recursion example_float64 (counting_lookup [(''X'', ''1'')]) (VString ''${X:foo}'' :: (string, unit) vtree) 0
       = ((VString ''${X:foo}'', [MalformedPlaceholder ''${X:foo}'']), 0)
   \<and> Expand example_float64 (VString ''${X:foo}'' :: (string, unit) vtree) (counting_lookup [(''X'', ''1'')]) 0
       = ((VString ''${X:foo}'', Some ''could not parse ${X:foo}''), 0)
   \<and> Error (UnsupportedFormat ''foo'') = ''format foo is not supported''"
  by code_simp

text \<open>
  Claim C3, amended. For every placeholder whose format tag (the text after the first colon
  and before any \<open>:-\<close>) is not exactly \<open>number\<close>, \<open>boolean\<close> or \<open>string\<close>, \<open>expandValue\<close> returns the
  error \<open>could not parse\<close> with the text of the placeholder and does not call the lookup; where
  the placeholder is the whole string, \<open>Expand\<close> keeps it and reports that error. The tag is
  neither ignored nor read as part of a fallback. No input at all makes \<open>expandValue\<close> return
  \<open>UnsupportedFormat\<close>.
\<close>

theorem unrecognized_format:
  "(CHR '':'' \<notin> set n \<and> \<not> HasPrefix T ''-'' \<and> format_tag T \<notin> {''number'', ''boolean'', ''string''}
      \<longrightarrow> expandValue lib (''${'' @ n @ '':'' @ T @ ''}'') lookup s
            = (Inl (MalformedPlaceholder (''${'' @ n @ '':'' @ T @ ''}'')), s)
        \<and> (CHR ''}'' \<notin> set n \<and> CHR ''}'' \<notin> set T
            \<longrightarrow> recursion lib lookup (VString (''${'' @ n @ '':'' @ T @ ''}'') :: ('f, 'o) vtree) s
                  = ((VString (''${'' @ n @ '':'' @ T @ ''}''),
                      [MalformedPlaceholder (''${'' @ n @ '':'' @ T @ ''}'')]), s)
              \<and> Expand lib (VString (''${'' @ n @ '':'' @ T @ ''}'') :: ('f, 'o) vtree) lookup s
                  = ((VString (''${'' @ n @ '':'' @ T @ ''}''),
                      Some (Errorf (''could not parse '' @ ''${'' @ n @ '':'' @ T @ ''}''))), s)))
   \<and> fst (expandValue lib str lookup s) \<noteq> Inl (UnsupportedFormat f)"
proof (intro conjI impI)
  let ?tok = "''${'' @ n @ '':'' @ T @ ''}''"
  assume a: "CHR '':'' \<notin> set n \<and> \<not> HasPrefix T ''-'' \<and> format_tag T \<notin> {''number'', ''boolean'', ''string''}"
  then have "expandValueRegex ?tok = None"
    by (intro expandValueRegex_bad_tag) simp_all
  then show ev: "expandValue lib ?tok lookup s = (Inl (MalformedPlaceholder ?tok), s)"
    by (rule expandValue_malformed)
  {
    assume "CHR ''}'' \<notin> set n \<and> CHR ''}'' \<notin> set T"
    then have sr: "singleRegex ?tok"
      using singleRegex_token[of "n @ '':'' @ T"] by simp
    from recursion_single_error[OF sr ev]
    show "recursion lib lookup (VString ?tok :: ('f, 'o) vtree) s
                  = ((VString ?tok, [MalformedPlaceholder ?tok]), s)" .
    from Expand_single_error[OF sr ev]
    show "Expand lib (VString ?tok :: ('f, 'o) vtree) lookup s
                  = ((VString ?tok, Some (Errorf (''could not parse '' @ ?tok))), s)" by simp
  }
next
  show "fst (expandValue lib str lookup s) \<noteq> Inl (UnsupportedFormat f)"
    by (rule expandValue_never_unsupported)
qed

theorem unrecognized_format_witness:
  "expandValue example_float64 ''${X:foo:-bar}'' (counting_lookup [(''X'', ''1'')]) 0
     = (Inl (MalformedPlaceholder ''${X:foo:-bar}''), 0)
   \<and> Expand example_float64 (VString ''${X:foo:-bar}'' :: (string, unit) vtree) (counting_lookup [(''X'', ''1'')]) 0
     = ((VString ''${X:foo:-bar}'', Some ''could not parse ${X:foo:-bar}''), 0)"
proof -
  have h: "\<not> HasPrefix ''foo:-bar'' ''-''" "format_tag ''foo:-bar'' = ''foo''" by code_simp+
  have e: "Errorf ''could not parse ${X:foo:-bar}'' = ''could not parse ${X:foo:-bar}''" by code_simp
  note th = unrecognized_format[where 'o = unit and n = "''X''" and T = "''foo:-bar''" and lib = example_float64
      and lookup = "counting_lookup [(''X'', ''1'')]" and s = 0 and str = "[]" and f = "[]"]
  from th h e show ?thesis by simp
qed


section \<open>The combined error\<close>

text \<open>
  The errors of a slice are those of its elements in their order, and \<open>Expand\<close> joins the
  messages with a comma and a space. The joined text is handed to \<open>fmt.Errorf\<close> as its format:
  it is the message of the error that \<open>Expand\<close> returns as long as no message holds a percent
  sign.
\<close>

lemma recursion_slice_errors:
  "snd (fst (recursion_slice lib lookup (x # xs) s))
     = snd (fst (recursion lib lookup x s))
       @ snd (fst (recursion_slice lib lookup xs (snd (recursion lib lookup x s))))"
  by (simp add: split_beta)

lemma Join_no_percent:
  "(\<And>m. m \<in> set ms \<Longrightarrow> CHR ''%'' \<notin> set m) \<Longrightarrow> CHR ''%'' \<notin> set (Join ms '', '')"
  by (induction ms "'', ''" rule: Join.induct) auto

lemma Expand_error_joined:
  assumes "recursion lib lookup input s = ((output, errs), s')" "errs \<noteq> []"
    and "\<And>e. e \<in> set errs \<Longrightarrow> CHR ''%'' \<notin> set (Error e)"
  shows "Expand lib input lookup s = ((output, Some (Join (map Error errs) '', '')), s')"
proof -
  have "CHR ''%'' \<notin> set (Join (map Error errs) '', '')"
    by (rule Join_no_percent) (use assms(3) in auto)
  then have "Errorf (Join (map Error errs) '', '') = Join (map Error errs) '', ''"
    by (rule Errorf_plain)
  with assms(1,2) show ?thesis by (simp add: Expand_def)
qed

lemma Expand_no_error:
  "recursion lib lookup input s = ((output, []), s') \<Longrightarrow> Expand lib input lookup s = ((output, None), s')"
  by (simp add: Expand_def)


text \<open>
  Claim C4 says that the message of the combined error is the messages of the single errors
  joined by a comma and a space. With a map that gives \<open>P\<close> the value \<open>%d\<close>, the one error of
  \<open>${P:boolean}\<close> has the message \<open>%d is not a valid boolean\<close>, and \<open>fmt.Errorf\<close>, which reads it
  as a format with a verb and no operand, gives another text.
\<close>

theorem joined_message_as_format:
  "ExpandMap lib (VString ''${P:boolean}'' :: ('f, 'o) vtree) [''P'' \<mapsto> ''%d'']
     = (VString ''${P:boolean}'', Some ''%!d(MISSING) is not a valid boolean'')
   \<and> Join (map Error [InvalidBoolean ''%d'']) '', '' = ''%d is not a valid boolean''"
proof
  let ?p = "\<lparr>name = ''P'', hasFormat = '':boolean'', format = ''boolean'', hasFallback = [], fallback = []\<rparr>"
  let ?lk = "\<lambda>key s. case [''P'' \<mapsto> ''%d''] key of
                        None \<Rightarrow> ((None, Some (''variable '' @ key @ '' is missing'')), s)
                      | Some v \<Rightarrow> ((Some v, None), s)"
  have sr: "singleRegex ''${P:boolean}''" by code_simp
  have rx: "expandValueRegex ''${P:boolean}'' = Some ?p" by code_simp
  have "expandValue lib ''${P:boolean}'' ?lk () = (switch_format lib (format ?p) ''%d'', ())"
    by (rule expandValue_found[OF rx]) simp
  moreover have "switch_format lib ''boolean'' ''%d'' = Inl (InvalidBoolean ''%d'')"
    by (simp only: switch_format_boolean) simp
  ultimately have ev: "expandValue lib ''${P:boolean}'' ?lk () = (Inl (InvalidBoolean ''%d''), ())"
    by simp
  have m: "Errorf ''%d is not a valid boolean'' = ''%!d(MISSING) is not a valid boolean''" by code_simp
  have "Expand lib (VString ''${P:boolean}'' :: ('f, 'o) vtree) ?lk ()
          = ((VString ''${P:boolean}'', Some (Errorf (Error (InvalidBoolean ''%d'')))), ())"
    by (rule Expand_single_error[OF sr ev])
  with m show "ExpandMap lib (VString ''${P:boolean}'' :: ('f, 'o) vtree) [''P'' \<mapsto> ''%d'']
     = (VString ''${P:boolean}'', Some ''%!d(MISSING) is not a valid boolean'')"
    by (simp add: ExpandMap_def)
next
  show "Join (map Error [InvalidBoolean ''%d'']) '', '' = ''%d is not a valid boolean''" by simp
qed

section \<open>The shape of the tree\<close>

lemma Expand_output: "fst (fst (Expand lib input lookup s)) = fst (fst (recursion lib lookup input s))"
  by (simp add: Expand_def split: prod.splits)

lemma Expand_state: "snd (Expand lib input lookup s) = snd (recursion lib lookup input s)"
  by (simp add: Expand_def split: prod.splits)

lemma recursion_slice_Cons:
  "fst (fst (recursion_slice lib lookup (x # xs) s))
     = fst (fst (recursion lib lookup x s))
       # fst (fst (recursion_slice lib lookup xs (snd (recursion lib lookup x s))))"
  "snd (recursion_slice lib lookup (x # xs) s)
     = snd (recursion_slice lib lookup xs (snd (recursion lib lookup x s)))"
  by (simp_all add: split_beta)

lemma recursion_map_Cons:
  "fst (fst (recursion_map lib lookup ((k, x) # kvs) s))
     = (k, fst (fst (recursion lib lookup x s)))
       # fst (fst (recursion_map lib lookup kvs (snd (recursion lib lookup x s))))"
  "snd (recursion_map lib lookup ((k, x) # kvs) s)
     = snd (recursion_map lib lookup kvs (snd (recursion lib lookup x s)))"
  by (simp_all add: split_beta)

lemma recursion_slice_length:
  "length (fst (fst (recursion_slice lib lookup xs s))) = length xs"
proof (induction xs arbitrary: s)
  case Nil
  show ?case by simp
next
  case (Cons x xs)
  show ?case by (simp only: recursion_slice_Cons length_Cons Cons.IH)
qed

lemma recursion_slice_nth:
  "i < length xs \<Longrightarrow>
     fst (fst (recursion_slice lib lookup xs s)) ! i
       = fst (fst (recursion lib lookup (xs ! i) (snd (recursion_slice lib lookup (take i xs) s))))"
proof (induction xs arbitrary: s i)
  case Nil
  then show ?case by simp
next
  case (Cons x xs)
  show ?case
  proof (cases i)
    case 0
    then show ?thesis by (simp only: recursion_slice_Cons) simp
  next
    case (Suc j)
    with Cons.prems have "j < length xs" by simp
    from Cons.IH[OF this, of "snd (recursion lib lookup x s)"] Suc show ?thesis
      by (simp only: recursion_slice_Cons take_Suc_Cons nth_Cons_Suc)
  qed
qed

lemma recursion_map_keys:
  "map fst (fst (fst (recursion_map lib lookup kvs s))) = map fst kvs"
proof (induction kvs arbitrary: s)
  case Nil
  then show ?case by simp
next
  case (Cons kv kvs)
  obtain k x where kv: "kv = (k, x)" by (cases kv)
  show ?case unfolding kv by (simp only: recursion_map_Cons list.map fst_conv Cons.IH)
qed

lemma recursion_map_nth:
  "i < length kvs \<Longrightarrow>
     snd (fst (fst (recursion_map lib lookup kvs s)) ! i)
       = fst (fst (recursion lib lookup (snd (kvs ! i)) (snd (recursion_map lib lookup (take i kvs) s))))"
proof (induction kvs arbitrary: s i)
  case Nil
  then show ?case by simp
next
  case (Cons kv kvs)
  obtain k x where kv: "kv = (k, x)" by (cases kv)
  show ?case
  proof (cases i)
    case 0
    with kv show ?thesis by (simp only: recursion_map_Cons) simp
  next
    case (Suc j)
    with Cons.prems have "j < length kvs" by simp
    from Cons.IH[OF this, of "snd (recursion lib lookup x s)"] Suc kv show ?thesis
      by (simp only: recursion_map_Cons take_Suc_Cons nth_Cons_Suc)
  qed
qed

lemma recursion_VSlice:
  "fst (fst (recursion lib lookup (VSlice xs) s)) = VSlice (fst (fst (recursion_slice lib lookup xs s)))"
  "snd (recursion lib lookup (VSlice xs) s) = snd (recursion_slice lib lookup xs s)"
  by (simp_all add: split_beta)

lemma recursion_VMap:
  "fst (fst (recursion lib lookup (VMap kvs) s)) = VMap (fst (fst (recursion_map lib lookup kvs s)))"
  "snd (recursion lib lookup (VMap kvs) s) = snd (recursion_map lib lookup kvs s)"
  by (simp_all add: split_beta)


text \<open>
  Claim C9. \<open>Expand\<close> returns nil, an int, a float64 and a bool unchanged and with no error. A
  slice gives a slice of the same length whose element at each index is the expansion of the
  input's element at that index; a map gives a map with the same keys, each with the
  expansion of its value. The lookup may have a state: an element is expanded in the state
  the lookup has after the elements before it.
\<close>

theorem structure_preserved:
  "Expand lib (VNil :: ('f, 'o) vtree) lookup s = ((VNil, None), s)
   \<and> Expand lib (VInt n :: ('f, 'o) vtree) lookup s = ((VInt n, None), s)
   \<and> Expand lib (VFloat64 x :: ('f, 'o) vtree) lookup s = ((VFloat64 x, None), s)
   \<and> Expand lib (VBool b :: ('f, 'o) vtree) lookup s = ((VBool b, None), s)
   \<and> (\<exists>ys. fst (fst (Expand lib (VSlice xs :: ('f, 'o) vtree) lookup s)) = VSlice ys
          \<and> length ys = length xs
          \<and> (\<forall>i < length xs.
                ys ! i = fst (fst (Expand lib (xs ! i) lookup
                                    (snd (Expand lib (VSlice (take i xs)) lookup s))))))
   \<and> (\<exists>kvs'. fst (fst (Expand lib (VMap kvs :: ('f, 'o) vtree) lookup s)) = VMap kvs'
          \<and> map fst kvs' = map fst kvs
          \<and> (\<forall>i < length kvs.
                snd (kvs' ! i) = fst (fst (Expand lib (snd (kvs ! i)) lookup
                                            (snd (Expand lib (VMap (take i kvs)) lookup s))))))"
proof (intro conjI)
  let ?ys = "fst (fst (recursion_slice lib lookup xs s))"
  have y1: "fst (fst (Expand lib (VSlice xs :: ('f, 'o) vtree) lookup s)) = VSlice ?ys"
    by (simp only: Expand_output recursion_VSlice)
  have y2: "length ?ys = length xs" by (rule recursion_slice_length)
  have y3: "\<forall>i < length xs.
                ?ys ! i = fst (fst (Expand lib (xs ! i) lookup
                                    (snd (Expand lib (VSlice (take i xs)) lookup s))))"
  proof (intro allI impI)
    fix i assume "i < length xs"
    from recursion_slice_nth[OF this, of lib lookup s]
    show "?ys ! i = fst (fst (Expand lib (xs ! i) lookup
                                    (snd (Expand lib (VSlice (take i xs)) lookup s))))"
      by (simp only: Expand_output Expand_state recursion_VSlice)
  qed
  from y1 y2 y3
  show "\<exists>ys. fst (fst (Expand lib (VSlice xs :: ('f, 'o) vtree) lookup s)) = VSlice ys
          \<and> length ys = length xs
          \<and> (\<forall>i < length xs.
                ys ! i = fst (fst (Expand lib (xs ! i) lookup
                                    (snd (Expand lib (VSlice (take i xs)) lookup s)))))"
    by blast
  let ?kvs = "fst (fst (recursion_map lib lookup kvs s))"
  have m1: "fst (fst (Expand lib (VMap kvs :: ('f, 'o) vtree) lookup s)) = VMap ?kvs"
    by (simp only: Expand_output recursion_VMap)
  have m2: "map fst ?kvs = map fst kvs" by (rule recursion_map_keys)
  have m3: "\<forall>i < length kvs.
                snd (?kvs ! i) = fst (fst (Expand lib (snd (kvs ! i)) lookup
                                            (snd (Expand lib (VMap (take i kvs)) lookup s))))"
  proof (intro allI impI)
    fix i assume "i < length kvs"
    from recursion_map_nth[OF this, of lib lookup s]
    show "snd (?kvs ! i) = fst (fst (Expand lib (snd (kvs ! i)) lookup
                                            (snd (Expand lib (VMap (take i kvs)) lookup s))))"
      by (simp only: Expand_output Expand_state recursion_VMap)
  qed
  from m1 m2 m3
  show "\<exists>kvs'. fst (fst (Expand lib (VMap kvs :: ('f, 'o) vtree) lookup s)) = VMap kvs'
          \<and> map fst kvs' = map fst kvs
          \<and> (\<forall>i < length kvs.
                snd (kvs' ! i) = fst (fst (Expand lib (snd (kvs ! i)) lookup
                                            (snd (Expand lib (VMap (take i kvs)) lookup s)))))"
    by blast
qed (simp_all add: Expand_def)

theorem structure_preserved_witness:
  "Expand example_float64
      (VSlice [VString ''${A}'', VInt 3, VMap [(''k'', VString ''x ${B}''), (''l'', VNil)], VBool True]
         :: (string, unit) vtree)
      (counting_lookup [(''A'', ''a''), (''B'', ''b'')]) 0
     = ((VSlice [VString ''a'', VInt 3, VMap [(''k'', VString ''x b''), (''l'', VNil)], VBool True], None), 2)
   \<and> (\<exists>ys. fst (fst (Expand example_float64 (VSlice [VString ''${A}'', VInt 3] :: (string, unit) vtree)
                         (counting_lookup [(''A'', ''a'')]) 0)) = VSlice ys
          \<and> length ys = length [VString ''${A}'', VInt 3 :: (string, unit) vtree])"
proof -
  have a: "Expand example_float64
      (VSlice [VString ''${A}'', VInt 3, VMap [(''k'', VString ''x ${B}''), (''l'', VNil)], VBool True]
         :: (string, unit) vtree)
      (counting_lookup [(''A'', ''a''), (''B'', ''b'')]) 0
     = ((VSlice [VString ''a'', VInt 3, VMap [(''k'', VString ''x b''), (''l'', VNil)], VBool True], None), 2)"
    by code_simp
  have b: "\<exists>ys. fst (fst (Expand example_float64 (VSlice [VString ''${A}'', VInt 3] :: (string, unit) vtree)
                         (counting_lookup [(''A'', ''a'')]) 0)) = VSlice ys
          \<and> length ys = length [VString ''${A}'', VInt 3 :: (string, unit) vtree]"
    using structure_preserved[where 'o = unit and lib = example_float64
        and xs = "[VString ''${A}'', VInt 3]" and lookup = "counting_lookup [(''A'', ''a'')]" and s = 0]
    by blast
  from a b show ?thesis by blast
qed

section \<open>Values that are neither a string nor a slice nor a map\<close>

text \<open>
  Claim C10. An input node that is not a string, not a \<open>[]interface{}\<close> and not a
  \<open>map[string]interface{}\<close> (a value outside the documented tree among them, such as a map
  whose keys are no strings) is returned unchanged, with no error, and the lookup is not
  called: the last \<open>return\<close> of the closure catches every other dynamic type.
\<close>

theorem Expand_other_unchanged:
  "(\<forall>c. input \<noteq> VString c) \<and> (\<forall>xs. input \<noteq> VSlice xs) \<and> (\<forall>m. input \<noteq> VMap m)
     \<Longrightarrow> Expand lib input values s = ((input, None), s)"
  by (cases input) (simp_all add: Expand_def)

theorem Expand_other_unchanged_witness:
  "Expand \<lparr>ParseFloat = (\<lambda>t. None :: unit option), FormatFloat = (\<lambda>f. [])\<rparr>
     (VOther (7 :: nat)) (\<lambda>key (s :: nat). ((None, Some ''no''), Suc s)) 0
   = ((VOther 7, None), 0)"
  using Expand_other_unchanged
    [of "VOther (7 :: nat)" "\<lparr>ParseFloat = (\<lambda>t. None :: unit option), FormatFloat = (\<lambda>f. [])\<rparr>"
        "\<lambda>key (s :: nat). ((None, Some ''no''), Suc s)" 0]
  by simp

end
